theory Spec2Isabelle
  imports Complex_Main "HOL-Library.Sublist" "HOL-Library.Log_Nat"
begin

text \<open>
  A shallow embedding of the thumbnail generator: the service module that calls the
  external image and text models (\<^verbatim>\<open>generateThumbnail\<close>, \<^verbatim>\<open>getPromptSuggestions\<close>), the
  canvas compositor \<^verbatim>\<open>drawCanvas\<close>, and the state, handlers, effects and display panel of
  the \<^verbatim>\<open>App\<close> component as an event system. Promises are results in a sum type, with
  \<open>Inl\<close> for a rejection; Numbers are rationals rounded to binary64.
\<close>

section \<open>Shared types\<close>

text \<open>
  \<^verbatim>\<open>type AspectRatio = '16:9' | '1:1' | '9:16' | '4:3' | '3:4'\<close> (both modules declare it).
\<close>

datatype AspectRatio = AR_16_9 | AR_1_1 | AR_9_16 | AR_4_3 | AR_3_4

text \<open>
  A thrown JavaScript value: either an object for which \<^verbatim>\<open>instanceof Error\<close> holds, with
  its \<^verbatim>\<open>message\<close>, or any other value.
\<close>

datatype thrown = Error (message: string) | NonError

text \<open>
  \<^verbatim>\<open>String.prototype.includes\<close>: the needle occurs as a contiguous substring. Strings are
  byte lists here; for the ASCII needles of this program the test on UTF-8 bytes and the
  test on UTF-16 code units agree.
\<close>

fun str_includes :: "string \<Rightarrow> string \<Rightarrow> bool" where
  "str_includes [] sub = (sub = [])"
| "str_includes (c # cs) sub = (prefix sub (c # cs) \<or> str_includes cs sub)"

text \<open>A template literal prints an undefined value as the word undefined.\<close>

definition tmpl :: "string option \<Rightarrow> string" where
  "tmpl v = (case v of None \<Rightarrow> ''undefined'' | Some s \<Rightarrow> s)"

section \<open>The generation service module\<close>

subsection \<open>Requests and responses of the external SDK\<close>

text \<open>
  The module's \<^verbatim>\<open>UploadedImage\<close>. The caller passes \<^verbatim>\<open>data.split(',')[1]\<close>, which is
  undefined when the data URL has no comma, so the field is optional here.
\<close>

record ServiceImage =
  si_data :: "string option"
  si_mimeType :: string

datatype Modality = IMAGE | TEXT

datatype RequestPart = InlineDataPart "string option" string | TextPart string

datatype Contents = PartsContents "RequestPart list" | TextContents string

datatype Schema = ObjectSchema "(string \<times> Schema) list" "string list" | StringSchema string

record GenerateContentConfig =
  responseModalities :: "Modality list option"
  systemInstruction :: "string option"
  responseMimeType :: "string option"
  responseSchema :: "Schema option"

record GenerateContentParameters =
  gc_model :: string
  gc_contents :: Contents
  gc_config :: GenerateContentConfig

record GenerateImagesConfig =
  numberOfImages :: nat
  outputMimeType :: string
  cfg_aspectRatio :: AspectRatio

record GenerateImagesParameters =
  gi_model :: string
  gi_prompt :: string
  gi_config :: GenerateImagesConfig

record InlineData =
  id_data :: "string option"
  id_mimeType :: "string option"

record Part =
  inlineData :: "InlineData option"
  part_text :: "string option"

record Content =
  parts :: "Part list option"

record Candidate =
  content :: "Content option"

record GenerateContentResponse =
  candidates :: "Candidate list option"
  response_text :: "string option"

record Image =
  imageBytes :: "string option"

record GeneratedImage =
  image :: "Image option"

record GenerateImagesResponse =
  generatedImages :: "GeneratedImage list option"

text \<open>
  The client object \<^verbatim>\<open>ai.models\<close>: each call either rejects with a thrown value or resolves
  with a response.
\<close>

record AI =
  generateContent :: "GenerateContentParameters \<Rightarrow> thrown + GenerateContentResponse"
  generateImages :: "GenerateImagesParameters \<Rightarrow> thrown + GenerateImagesResponse"

subsection \<open>generateThumbnail\<close>

definition editingInstruction :: "string \<Rightarrow> string \<Rightarrow> string" where
  "editingInstruction prompt negativePrompt =
     (''You are an expert digital artist specializing in photorealistic character integration. '' @
      ''Your task is to take the person from the provided image and place them seamlessly into a new '' @
      ''environment described by the user. **Crucially, you must preserve the exact facial features, '' @
      ''hairstyle, and unique likeness of the person with the highest possible fidelity.** Do not change '' @
      ''their appearance or identity. Now, generate the following scene: '' @ [CHR 0x22] @ prompt @ [CHR 0x22]) @
     (if negativePrompt \<noteq> []
      then [CHR 0x0A, CHR 0x0A] @ ''**IMPORTANTLY, AVOID the following elements at all costs: '' @
           negativePrompt @ ''.**''
      else [])"

definition editRequest :: "string \<Rightarrow> string \<Rightarrow> ServiceImage \<Rightarrow> GenerateContentParameters" where
  "editRequest prompt negativePrompt img =
     \<lparr> gc_model = ''gemini-2.5-flash-image-preview'',
       gc_contents = PartsContents
         [InlineDataPart (si_data img) (si_mimeType img),
          TextPart (editingInstruction prompt negativePrompt)],
       gc_config = \<lparr> responseModalities = Some [IMAGE, TEXT], systemInstruction = None,
                     responseMimeType = None, responseSchema = None \<rparr> \<rparr>"

definition fullPrompt :: "string \<Rightarrow> string \<Rightarrow> string" where
  "fullPrompt prompt negativePrompt =
     prompt @ ''. '' @ (if negativePrompt \<noteq> [] then ''Negative prompt: '' @ negativePrompt else [])"

definition imagesRequest :: "string \<Rightarrow> string \<Rightarrow> AspectRatio \<Rightarrow> GenerateImagesParameters" where
  "imagesRequest prompt negativePrompt aspectRatio =
     \<lparr> gi_model = ''imagen-4.0-generate-001'',
       gi_prompt = fullPrompt prompt negativePrompt,
       gi_config = \<lparr> numberOfImages = 1, outputMimeType = ''image/jpeg'',
                     cfg_aspectRatio = aspectRatio \<rparr> \<rparr>"

text \<open>The one request a call of \<^verbatim>\<open>generateThumbnail\<close> builds: the branch on \<^verbatim>\<open>if (image)\<close>.\<close>

definition thumbnailRequest ::
  "string \<Rightarrow> string \<Rightarrow> AspectRatio \<Rightarrow> ServiceImage option
     \<Rightarrow> GenerateContentParameters + GenerateImagesParameters" where
  "thumbnailRequest prompt negativePrompt aspectRatio img =
     (case img of
        Some i \<Rightarrow> Inl (editRequest prompt negativePrompt i)
      | None \<Rightarrow> Inr (imagesRequest prompt negativePrompt aspectRatio))"

text \<open>
  \<^verbatim>\<open>response.candidates?.[0]?.content?.parts?.find(part => part.inlineData)\<close>: the first part
  of the first candidate that carries inline data, undefined when any link is missing.
\<close>

definition findImagePart :: "GenerateContentResponse \<Rightarrow> Part option" where
  "findImagePart response =
     (case candidates response of
        None \<Rightarrow> None
      | Some [] \<Rightarrow> None
      | Some (c # _) \<Rightarrow>
          (case content c of
             None \<Rightarrow> None
           | Some ct \<Rightarrow>
               (case parts ct of
                  None \<Rightarrow> None
                | Some ps \<Rightarrow> find (\<lambda>part. inlineData part \<noteq> None) ps)))"

definition no_image_edit :: string where
  "no_image_edit = ''No image was generated. The model may have refused the prompt. Please try describing a different scene.''"

definition no_image_text :: string where
  "no_image_text = ''No image was generated. The response may have been blocked due to safety policies. Please revise your prompt.''"

definition safety_message :: string where
  "safety_message = ''The generation was blocked due to safety policies. Please revise your prompt.''"

text \<open>
  Reading a property of undefined throws a TypeError, which is an Error; the wording of its
  message is the engine's (V8's is used here).
\<close>

definition type_error :: "string \<Rightarrow> thrown" where
  "type_error prop = Error (''Cannot read properties of undefined (reading '' @ [CHR 0x27] @ prop @ [CHR 0x27] @ '')'')"

text \<open>The body of the \<^verbatim>\<open>try\<close> block: \<open>Inl\<close> is a value thrown inside it.\<close>

definition generateThumbnail_try ::
  "AI \<Rightarrow> string \<Rightarrow> string \<Rightarrow> AspectRatio \<Rightarrow> ServiceImage option \<Rightarrow> thrown + string" where
  "generateThumbnail_try ai prompt negativePrompt aspectRatio img =
     (case thumbnailRequest prompt negativePrompt aspectRatio img of
        Inl req \<Rightarrow>
          (case generateContent ai req of
             Inl e \<Rightarrow> Inl e
           | Inr response \<Rightarrow>
               (case findImagePart response of
                  None \<Rightarrow> Inl (Error no_image_edit)
                | Some imagePart \<Rightarrow>
                    (case inlineData imagePart of
                       None \<Rightarrow> Inl (Error no_image_edit)
                     | Some d \<Rightarrow>
                         Inr (''data:'' @ tmpl (id_mimeType d) @ '';base64,'' @ tmpl (id_data d)))))
      | Inr req \<Rightarrow>
          (case generateImages ai req of
             Inl e \<Rightarrow> Inl e
           | Inr response \<Rightarrow>
               (case generatedImages response of
                  None \<Rightarrow> Inl (Error no_image_text)
                | Some [] \<Rightarrow> Inl (Error no_image_text)
                | Some (g # _) \<Rightarrow>
                    (case image g of
                       None \<Rightarrow> Inl (type_error ''imageBytes'')
                     | Some im \<Rightarrow> Inr (''data:image/jpeg;base64,'' @ tmpl (imageBytes im))))))"

text \<open>
  \<^verbatim>\<open>error instanceof Error ? error.message : "An unknown error occurred."\<close>, the first
  line of both \<^verbatim>\<open>catch\<close> blocks of the module.
\<close>

definition errorMessage_of :: "thrown \<Rightarrow> string" where
  "errorMessage_of error = (case error of Error m \<Rightarrow> m | NonError \<Rightarrow> ''An unknown error occurred.'')"

text \<open>The \<^verbatim>\<open>catch\<close> block: what it throws in place of the caught value.\<close>

definition generateThumbnail_catch :: "thrown \<Rightarrow> thrown" where
  "generateThumbnail_catch error =
     (let errorMessage = errorMessage_of error
      in if str_includes errorMessage ''blocked'' \<or> str_includes errorMessage ''safety''
         then Error safety_message
         else Error (''Failed to generate thumbnail: '' @ errorMessage))"

definition generateThumbnail ::
  "AI \<Rightarrow> string \<Rightarrow> string \<Rightarrow> AspectRatio \<Rightarrow> ServiceImage option \<Rightarrow> thrown + string" where
  "generateThumbnail ai prompt negativePrompt aspectRatio img =
     (case generateThumbnail_try ai prompt negativePrompt aspectRatio img of
        Inr url \<Rightarrow> Inr url
      | Inl error \<Rightarrow> Inl (generateThumbnail_catch error))"

subsection \<open>getPromptSuggestions\<close>

text \<open>A parsed JSON value; a later entry of an object's list overrides an earlier one.\<close>

datatype json =
  JNull | JBool bool | JNumber rat | JString string | JArray "json list"
| JObject "(string \<times> json) list"

text \<open>
  \<^verbatim>\<open>parsed.visual_prompt\<close>: reading a property of null throws a TypeError; a value without
  the property gives undefined.
\<close>

fun get_visual_prompt :: "json \<Rightarrow> thrown + json option" where
  "get_visual_prompt JNull =
     Inl (Error (''Cannot read properties of null (reading '' @ [CHR 0x27] @ ''visual_prompt'' @ [CHR 0x27] @ '')''))"
| "get_visual_prompt (JObject kvs) = Inr (map_of (rev kvs) ''visual_prompt'')"
| "get_visual_prompt _ = Inr None"

fun truthy_json :: "json option \<Rightarrow> bool" where
  "truthy_json None = False"
| "truthy_json (Some JNull) = False"
| "truthy_json (Some (JBool b)) = b"
| "truthy_json (Some (JNumber n)) = (n \<noteq> 0)"
| "truthy_json (Some (JString s)) = (s \<noteq> [])"
| "truthy_json (Some (JArray _)) = True"
| "truthy_json (Some (JObject _)) = True"

definition suggestions_systemInstruction :: string where
  "suggestions_systemInstruction = ''You are an expert YouTube thumbnail strategist. Your goal is to help users create a vivid, detailed, and click-worthy visual prompt for an AI image generator.''"

definition userPrompt :: "string \<Rightarrow> string" where
  "userPrompt currentPrompt =
     ''Based on the user'' @ [CHR 0x27] @ ''s idea: '' @ [CHR 0x27] @
     (if currentPrompt \<noteq> [] then currentPrompt else ''a popular YouTube video'') @ [CHR 0x27] @
     '', generate one improved and highly detailed visual prompt. The new prompt must include specific details about cinematic lighting, dynamic composition, and a clear emotional tone to make it more engaging.''"

definition suggestionsRequest :: "string \<Rightarrow> GenerateContentParameters" where
  "suggestionsRequest currentPrompt =
     \<lparr> gc_model = ''gemini-2.5-flash'',
       gc_contents = TextContents (userPrompt currentPrompt),
       gc_config = \<lparr> responseModalities = None,
                     systemInstruction = Some suggestions_systemInstruction,
                     responseMimeType = Some ''application/json'',
                     responseSchema = Some (ObjectSchema
                       [(''visual_prompt'',
                         StringSchema ''A single, detailed visual prompt for the AI image generator.'')]
                       [''visual_prompt'']) \<rparr> \<rparr>"

text \<open>
  The \<^verbatim>\<open>try\<close> block. \<^verbatim>\<open>String.prototype.trim\<close> and \<^verbatim>\<open>JSON.parse\<close> are the platform's and
  are parameters; \<^verbatim>\<open>JSON.parse\<close> may throw.
\<close>

definition getPromptSuggestions_try ::
  "AI \<Rightarrow> (string \<Rightarrow> string) \<Rightarrow> (string \<Rightarrow> thrown + json) \<Rightarrow> string \<Rightarrow> thrown + json" where
  "getPromptSuggestions_try ai trim JSON_parse currentPrompt =
     (case generateContent ai (suggestionsRequest currentPrompt) of
        Inl e \<Rightarrow> Inl e
      | Inr response \<Rightarrow>
          (case response_text response of
             None \<Rightarrow> Inl (type_error ''trim'')
           | Some t \<Rightarrow>
               (case JSON_parse (trim t) of
                  Inl e \<Rightarrow> Inl e
                | Inr parsed \<Rightarrow>
                    (case get_visual_prompt parsed of
                       Inl e \<Rightarrow> Inl e
                     | Inr v \<Rightarrow>
                         if truthy_json v then Inr parsed
                         else Inl (Error ''Invalid response format from AI for suggestions.'')))))"

definition getPromptSuggestions_catch :: "thrown \<Rightarrow> thrown" where
  "getPromptSuggestions_catch error =
     (let errorMessage = errorMessage_of error
      in Error (''Failed to get prompt suggestions: '' @ errorMessage))"

definition getPromptSuggestions ::
  "AI \<Rightarrow> (string \<Rightarrow> string) \<Rightarrow> (string \<Rightarrow> thrown + json) \<Rightarrow> string \<Rightarrow> thrown + json" where
  "getPromptSuggestions ai trim JSON_parse currentPrompt =
     (case getPromptSuggestions_try ai trim JSON_parse currentPrompt of
        Inr parsed \<Rightarrow> Inr parsed
      | Inl error \<Rightarrow> Inl (getPromptSuggestions_catch error))"

section \<open>The canvas compositor\<close>

subsection \<open>Numbers\<close>

text \<open>
  An ECMAScript Number is an IEEE 754 binary64 value. The finite ones are rationals, and
  \<^verbatim>\<open>+\<close>, \<^verbatim>\<open>-\<close>, \<^verbatim>\<open>*\<close>, \<^verbatim>\<open>/\<close> and a decimal literal give the exact result rounded to the
  nearest value with a 53-bit significand, ties to the even significand. The exponent is
  not bounded here: the numbers of this program (quotients, products and differences of
  32-bit dimensions and the five ratios) are far from the overflow and underflow thresholds.
\<close>

definition round_even :: "rat \<Rightarrow> int" where
  "round_even y =
     (let f = \<lfloor>y\<rfloor>; d = y - of_int f
      in if d < 1 / 2 then f else if 1 / 2 < d then f + 1 else if even f then f else f + 1)"

text \<open>For \<open>x > 0\<close>, the exponent \<open>e\<close> with \<open>2\<^sup>e \<le> x < 2\<^sup>e\<^sup>+\<^sup>1\<close>, from the bit lengths of numerator and denominator.\<close>

definition ilog2 :: "rat \<Rightarrow> int" where
  "ilog2 x =
     (let (p, q) = quotient_of x;
          d = int (floorlog 2 (nat p)) - int (floorlog 2 (nat q))
      in if 2 powi d \<le> x then d else d - 1)"

definition fl :: "rat \<Rightarrow> rat" where
  "fl x =
     (if x = 0 then 0
      else let u = 2 powi (ilog2 \<bar>x\<bar> - 52)
           in sgn x * of_int (round_even (\<bar>x\<bar> / u)) * u)"

text \<open>\<^verbatim>\<open>Math.round\<close>: the nearest integer, a tie going up; it is exact.\<close>

definition Math_round :: "rat \<Rightarrow> int" where
  "Math_round x = \<lfloor>x + 1 / 2\<rfloor>"

subsection \<open>drawCanvas\<close>

text \<open>\<^verbatim>\<open>targetAspectRatio.split(':').map(Number)\<close>.\<close>

fun ratio_parts :: "AspectRatio \<Rightarrow> rat \<times> rat" where
  "ratio_parts AR_16_9 = (16, 9)"
| "ratio_parts AR_1_1 = (1, 1)"
| "ratio_parts AR_9_16 = (9, 16)"
| "ratio_parts AR_4_3 = (4, 3)"
| "ratio_parts AR_3_4 = (3, 4)"

text \<open>The target ratio as the exact fraction, before it is rounded to a Number.\<close>

definition exact_ratio :: "AspectRatio \<Rightarrow> rat" where
  "exact_ratio targetAspectRatio =
     (case ratio_parts targetAspectRatio of (targetW, targetH) \<Rightarrow> targetW / targetH)"

text \<open>
  The values assigned to \<^verbatim>\<open>canvas.width\<close> and \<^verbatim>\<open>canvas.height\<close> in the \<^verbatim>\<open>onload\<close> handler,
  from \<^verbatim>\<open>image.width\<close> and \<^verbatim>\<open>image.height\<close> (unsigned 32-bit attributes, exact as Numbers).
  A canvas attribute keeps an assigned integer below \<open>2\<^sup>3\<^sup>1\<close> as it is. Division by a zero
  height gives Infinity, or NaN for \<^verbatim>\<open>0 / 0\<close>: with Infinity the tolerance test succeeds and
  the comparison fails, with NaN the tolerance test fails. Both cases are written out.
\<close>

definition canvas_size :: "nat \<Rightarrow> nat \<Rightarrow> AspectRatio \<Rightarrow> int \<times> int" where
  "canvas_size originalW originalH targetAspectRatio =
     (let (targetW, targetH) = ratio_parts targetAspectRatio;
          targetRatio = fl (targetW / targetH);
          (canvasW, canvasH) =
            (if originalH = 0 then
               (if originalW = 0 then (of_nat originalW, of_nat originalH)
                else (of_nat originalW, fl (of_nat originalW / targetRatio)))
             else
               let originalRatio = fl (of_nat originalW / of_nat originalH)
               in if \<bar>fl (targetRatio - originalRatio)\<bar> > fl (1 / 100) then
                    (if targetRatio > originalRatio
                     then (fl (of_nat originalH * targetRatio), of_nat originalH)
                     else (of_nat originalW, fl (of_nat originalW / targetRatio)))
                  else (of_nat originalW, of_nat originalH))
      in (Math_round canvasW, Math_round canvasH))"

text \<open>What has been done to the canvas when it is encoded.\<close>

record Canvas =
  canvas_width :: int
  canvas_height :: int
  fillStyle :: string
  fillRect :: "int \<times> int \<times> int \<times> int"
  drawImage :: "string \<times> int \<times> int \<times> nat \<times> nat"

text \<open>
  The browser: whether the image loads and with which dimensions (\<open>None\<close>: the
  \<^verbatim>\<open>onerror\<close> handler runs), whether a canvas of a given size yields a 2D context, and
  the JPEG encoder.
\<close>

record Browser =
  load_image :: "string \<Rightarrow> (nat \<times> nat) option"
  getContext_2d :: "int \<times> int \<Rightarrow> bool"
  toDataURL_jpeg :: "Canvas \<Rightarrow> string"

text \<open>The canvas as it is when \<^verbatim>\<open>toDataURL\<close> is called.\<close>

definition composed_canvas :: "string \<Rightarrow> nat \<Rightarrow> nat \<Rightarrow> AspectRatio \<Rightarrow> Canvas" where
  "composed_canvas base64Image originalW originalH targetAspectRatio =
     (let (w, h) = canvas_size originalW originalH targetAspectRatio;
          offsetX = fl (fl (of_int w - of_nat originalW) / 2);
          offsetY = fl (fl (of_int h - of_nat originalH) / 2)
      in \<lparr> canvas_width = w, canvas_height = h, fillStyle = ''#000000'',
           fillRect = (0, 0, w, h),
           drawImage = (base64Image, Math_round offsetX, Math_round offsetY,
                        originalW, originalH) \<rparr>)"

text \<open>The promise: \<open>Inl\<close> is a rejection, \<open>Inr\<close> the resolved data URL.\<close>

definition drawCanvas :: "Browser \<Rightarrow> string \<Rightarrow> AspectRatio \<Rightarrow> thrown + string" where
  "drawCanvas br base64Image targetAspectRatio =
     (case load_image br base64Image of
        None \<Rightarrow> Inl (Error ''Failed to load image for canvas rendering.'')
      | Some (originalW, originalH) \<Rightarrow>
          (let c = composed_canvas base64Image originalW originalH targetAspectRatio
           in if \<not> getContext_2d br (canvas_width c, canvas_height c)
              then Inl (Error ''Could not get canvas context'')
              else Inr (toDataURL_jpeg br c)))"

section \<open>The application component\<close>

subsection \<open>State\<close>

text \<open>The component's \<^verbatim>\<open>UploadedImage\<close>: \<open>data\<close> is a base64 data URL.\<close>

record UploadedImage =
  data :: string
  mimeType :: string

text \<open>The \<^verbatim>\<open>useState\<close> cells of \<^verbatim>\<open>App\<close>; null is \<open>None\<close>.\<close>

record AppState =
  prompt :: string
  negativePrompt :: string
  style :: string
  aspectRatio :: AspectRatio
  rawImageUrl :: "string option"
  finalImageUrl :: "string option"
  isLoading :: bool
  error :: "string option"
  uploadedImage :: "UploadedImage option"
  isAppVisible :: bool
  isSuggesting :: bool

text \<open>The curly quotes of the source are written as their UTF-8 bytes.\<close>

definition initialPrompt :: string where
  "initialPrompt =
     ''A dramatic and inspirational YouTube thumbnail showing the Indian flag waving proudly on top of the Earth, golden sunlight shining behind it, futuristic skyscrapers and technology in the background, a confident young person pointing forward with determination, bold glowing text overlay: '' @
     [CHR 0xE2, CHR 0x80, CHR 0x98] @ ''India #1 in the World'' @ [CHR 0xE2, CHR 0x80, CHR 0x99] @
     '', vibrant colors (saffron, white, green, blue), cinematic style, ultra-realistic, high contrast, motivational theme.''"

definition styles :: "string list" where
  "styles = [''Cinematic'', ''Minimalist'', ''Cartoonish'', ''Photorealistic'', ''Vibrant'', ''Dark & Moody'']"

definition aspectRatios :: "AspectRatio list" where
  "aspectRatios = [AR_16_9, AR_1_1, AR_9_16, AR_4_3, AR_3_4]"

definition initial_state :: AppState where
  "initial_state =
     \<lparr> prompt = initialPrompt, negativePrompt = ''blurry, deformed, watermark'',
       style = ''Cinematic'', aspectRatio = AR_16_9, rawImageUrl = None, finalImageUrl = None,
       isLoading = False, error = None, uploadedImage = None, isAppVisible = False,
       isSuggesting = False \<rparr>"

text \<open>Truthiness of a \<^verbatim>\<open>string | null\<close>: null and the empty string are falsy.\<close>

definition truthy :: "string option \<Rightarrow> bool" where
  "truthy v = (case v of None \<Rightarrow> False | Some s \<Rightarrow> s \<noteq> [])"

text \<open>\<^verbatim>\<open>toLowerCase\<close> on the ASCII letters (the style tags are ASCII).\<close>

definition toLowerCase :: "string \<Rightarrow> string" where
  "toLowerCase s =
     map (\<lambda>c. if 65 \<le> (of_char c :: nat) \<and> (of_char c :: nat) \<le> 90
              then char_of ((of_char c :: nat) + 32) else c) s"

text \<open>\<^verbatim>\<open>s.split(',')[1]\<close>: the text between the first and the second comma, if any.\<close>

definition split_comma_1 :: "string \<Rightarrow> string option" where
  "split_comma_1 s =
     (case dropWhile (\<lambda>c. c \<noteq> CHR '','') s of
        [] \<Rightarrow> None
      | _ # rest \<Rightarrow> Some (takeWhile (\<lambda>c. c \<noteq> CHR '','') rest))"

subsection \<open>The display panel\<close>

datatype View = LoaderView | ErrorPanel string | GeneratedImage string | EmptyState

text \<open>The conditional chain of the right display panel.\<close>

definition display_panel :: "AppState \<Rightarrow> View" where
  "display_panel s =
     (if isLoading s then LoaderView
      else if truthy (error s) then ErrorPanel (the (error s))
      else if truthy (finalImageUrl s) then GeneratedImage (the (finalImageUrl s))
      else EmptyState)"

fun shows_loading :: "View \<Rightarrow> bool" where
  "shows_loading LoaderView = True" | "shows_loading _ = False"

fun shows_error :: "View \<Rightarrow> bool" where
  "shows_error (ErrorPanel _) = True" | "shows_error _ = False"

fun shows_image :: "View \<Rightarrow> bool" where
  "shows_image (GeneratedImage _) = True" | "shows_image _ = False"

fun shows_empty :: "View \<Rightarrow> bool" where
  "shows_empty EmptyState = True" | "shows_empty _ = False"

subsection \<open>Requests in flight\<close>

text \<open>
  The arguments of a pending \<^verbatim>\<open>generateThumbnail\<close> call, of a pending
  \<^verbatim>\<open>getPromptSuggestions\<close> call and of a pending \<^verbatim>\<open>drawCanvas\<close> call. The component's
  state and the promises not yet settled make up the whole system.
\<close>

record GenerationCall =
  call_prompt :: string
  call_negativePrompt :: string
  call_aspectRatio :: AspectRatio
  call_image :: "ServiceImage option"

record System =
  ui :: AppState
  generations :: "GenerationCall list"
  suggestions :: "string list"
  renders :: "(string \<times> AspectRatio) list"

subsection \<open>Effects\<close>

text \<open>
  The two effects that depend on \<^verbatim>\<open>rawImageUrl\<close>, run after a render in which a dependency
  differs from the previous render (\<open>before\<close>): the first starts \<^verbatim>\<open>drawCanvas\<close>, the
  second clears the loading flag. React runs them before it handles the next event.
\<close>

definition run_effects :: "AppState \<Rightarrow> System \<Rightarrow> System" where
  "run_effects before sys =
     (let s = ui sys;
          sys1 = (if (rawImageUrl s \<noteq> rawImageUrl before \<or> aspectRatio s \<noteq> aspectRatio before)
                     \<and> truthy (rawImageUrl s)
                  then sys\<lparr>renders := renders sys @ [(the (rawImageUrl s), aspectRatio s)]\<rparr>
                  else sys)
      in if rawImageUrl s \<noteq> rawImageUrl before \<and> truthy (rawImageUrl s)
         then sys1\<lparr>ui := (ui sys1)\<lparr>isLoading := False\<rparr>\<rparr>
         else sys1)"

text \<open>The first render: the mount effect sets \<^verbatim>\<open>isAppVisible\<close>; no image is there yet.\<close>

definition mounted :: System where
  "mounted = \<lparr> ui = initial_state\<lparr>isAppVisible := True\<rparr>, generations = [], suggestions = [],
               renders = [] \<rparr>"

subsection \<open>Handlers\<close>

text \<open>
  \<^verbatim>\<open>handleGenerate\<close> up to its \<^verbatim>\<open>await\<close>: the guard, the four state updates, and the call of
  \<^verbatim>\<open>generateThumbnail\<close>, which is left pending.
\<close>

definition handleGenerate :: "System \<Rightarrow> System" where
  "handleGenerate sys =
     (let s = ui sys in
      if prompt s = [] \<and> uploadedImage s = None then sys
      else
        let s' = s\<lparr>isLoading := True, error := None, rawImageUrl := None, finalImageUrl := None\<rparr>;
            finalPrompt = prompt s @ '', '' @ toLowerCase (style s) @ '' style'';
            imageToPass = (case uploadedImage s of
                             Some u \<Rightarrow> Some \<lparr>si_data = split_comma_1 (data u), si_mimeType = mimeType u\<rparr>
                           | None \<Rightarrow> None)
        in sys\<lparr>ui := s',
               generations := generations sys @
                 [\<lparr>call_prompt = finalPrompt, call_negativePrompt = negativePrompt s,
                   call_aspectRatio = aspectRatio s, call_image = imageToPass\<rparr>]\<rparr>)"

text \<open>
  The rest of \<^verbatim>\<open>handleGenerate\<close>, run when the pending call settles: the line after the
  \<^verbatim>\<open>await\<close>, or the \<^verbatim>\<open>catch\<close> block.
\<close>

definition handleGenerate_settled :: "thrown + string \<Rightarrow> AppState \<Rightarrow> AppState" where
  "handleGenerate_settled outcome s =
     (case outcome of
        Inr generatedUrl \<Rightarrow> s\<lparr>rawImageUrl := Some generatedUrl\<rparr>
      | Inl err \<Rightarrow>
          s\<lparr>error := Some (case err of Error m \<Rightarrow> m | NonError \<Rightarrow> ''An unknown error occurred''),
            isLoading := False\<rparr>)"

definition handleGetSuggestions :: "System \<Rightarrow> System" where
  "handleGetSuggestions sys =
     (let s = ui sys in
      if prompt s = [] then sys
      else sys\<lparr>ui := s\<lparr>isSuggesting := True, error := None\<rparr>,
               suggestions := suggestions sys @ [prompt s]\<rparr>)"

text \<open>The outcome carries \<^verbatim>\<open>result.visual_prompt\<close>, a string by the declared type.\<close>

definition handleGetSuggestions_settled :: "thrown + string \<Rightarrow> AppState \<Rightarrow> AppState" where
  "handleGetSuggestions_settled outcome s =
     (case outcome of
        Inr visual_prompt \<Rightarrow> s\<lparr>prompt := visual_prompt, isSuggesting := False\<rparr>
      | Inl err \<Rightarrow>
          s\<lparr>error := Some (case err of
                              Error m \<Rightarrow> ''Suggestion Error: '' @ m
                            | NonError \<Rightarrow> ''An unknown error occurred while getting suggestions''),
            isSuggesting := False\<rparr>)"

text \<open>The \<^verbatim>\<open>then\<close> and \<^verbatim>\<open>catch\<close> of the effect that calls \<^verbatim>\<open>drawCanvas\<close>.\<close>

definition drawCanvas_settled :: "thrown + string \<Rightarrow> AppState \<Rightarrow> AppState" where
  "drawCanvas_settled outcome s =
     (case outcome of
        Inr url \<Rightarrow> s\<lparr>finalImageUrl := Some url\<rparr>
      | Inl err \<Rightarrow>
          s\<lparr>error := Some (''Canvas Render Error: '' @
                            (case err of Error m \<Rightarrow> m | NonError \<Rightarrow> ''undefined''))\<rparr>)"

definition handleImageUpload :: "UploadedImage \<Rightarrow> AppState \<Rightarrow> AppState" where
  "handleImageUpload u s = s\<lparr>uploadedImage := Some u, prompt := []\<rparr>"

definition removeImage :: "AppState \<Rightarrow> AppState" where
  "removeImage s = s\<lparr>uploadedImage := None, prompt := initialPrompt\<rparr>"

text \<open>
  \<^verbatim>\<open>handleDownload\<close> changes no state: with a final image it clicks a temporary link with
  this address and file name.
\<close>

definition handleDownload :: "AppState \<Rightarrow> (string \<times> string) option" where
  "handleDownload s =
     (if \<not> truthy (finalImageUrl s) then None
      else Some (the (finalImageUrl s), ''bhagat-thumbnail.jpeg''))"

subsection \<open>Events\<close>

datatype Event =
  ChangePrompt string
| ChangeNegativePrompt string
| ClickStyle string
| ClickAspectRatio AspectRatio
| FileLoaded UploadedImage
| ClickRemoveImage
| ClickSuggest
| ClickGenerate
| ClickTryAgain
| ClickDownload
| GenerationSettles nat "thrown + string"
| SuggestionSettles nat "thrown + string"
| RenderSettles nat "thrown + string"

text \<open>
  Which events the rendered page lets happen: a disabled control does not fire, a control
  that is not rendered cannot be clicked, and only a pending promise can settle.
\<close>

fun enabled :: "System \<Rightarrow> Event \<Rightarrow> bool" where
  "enabled sys (ChangePrompt _) = (\<not> isLoading (ui sys))"
| "enabled sys (ChangeNegativePrompt _) = (\<not> isLoading (ui sys))"
| "enabled sys (ClickStyle st) = (\<not> isLoading (ui sys) \<and> st \<in> set styles)"
| "enabled sys (ClickAspectRatio ar) = (\<not> isLoading (ui sys) \<and> ar \<in> set aspectRatios)"
| "enabled sys (FileLoaded _) = True"
| "enabled sys ClickRemoveImage = (uploadedImage (ui sys) \<noteq> None)"
| "enabled sys ClickSuggest =
     (\<not> (isLoading (ui sys) \<or> isSuggesting (ui sys) \<or> prompt (ui sys) = []))"
| "enabled sys ClickGenerate =
     (\<not> (isLoading (ui sys) \<or> (prompt (ui sys) = [] \<and> uploadedImage (ui sys) = None)))"
| "enabled sys ClickTryAgain = shows_error (display_panel (ui sys))"
| "enabled sys ClickDownload = shows_image (display_panel (ui sys))"
| "enabled sys (GenerationSettles i _) = (i < length (generations sys))"
| "enabled sys (SuggestionSettles i _) = (i < length (suggestions sys))"
| "enabled sys (RenderSettles i _) = (i < length (renders sys))"

text \<open>Removing the \<open>i\<close>-th pending promise.\<close>

definition drop_nth :: "nat \<Rightarrow> 'a list \<Rightarrow> 'a list" where
  "drop_nth i xs = take i xs @ drop (Suc i) xs"

text \<open>The handler of an event, without the effects that follow the render.\<close>

fun handle :: "System \<Rightarrow> Event \<Rightarrow> System" where
  "handle sys (ChangePrompt p) = sys\<lparr>ui := (ui sys)\<lparr>prompt := p\<rparr>\<rparr>"
| "handle sys (ChangeNegativePrompt p) = sys\<lparr>ui := (ui sys)\<lparr>negativePrompt := p\<rparr>\<rparr>"
| "handle sys (ClickStyle st) = sys\<lparr>ui := (ui sys)\<lparr>style := st\<rparr>\<rparr>"
| "handle sys (ClickAspectRatio ar) = sys\<lparr>ui := (ui sys)\<lparr>aspectRatio := ar\<rparr>\<rparr>"
| "handle sys (FileLoaded u) = sys\<lparr>ui := handleImageUpload u (ui sys)\<rparr>"
| "handle sys ClickRemoveImage = sys\<lparr>ui := removeImage (ui sys)\<rparr>"
| "handle sys ClickSuggest = handleGetSuggestions sys"
| "handle sys ClickGenerate = handleGenerate sys"
| "handle sys ClickTryAgain = handleGenerate sys"
| "handle sys ClickDownload = sys"
| "handle sys (GenerationSettles i outcome) =
     sys\<lparr>ui := handleGenerate_settled outcome (ui sys),
         generations := drop_nth i (generations sys)\<rparr>"
| "handle sys (SuggestionSettles i outcome) =
     sys\<lparr>ui := handleGetSuggestions_settled outcome (ui sys),
         suggestions := drop_nth i (suggestions sys)\<rparr>"
| "handle sys (RenderSettles i outcome) =
     sys\<lparr>ui := drawCanvas_settled outcome (ui sys), renders := drop_nth i (renders sys)\<rparr>"

definition step :: "System \<Rightarrow> Event \<Rightarrow> System" where
  "step sys ev = run_effects (ui sys) (handle sys ev)"

text \<open>The states the page can be in.\<close>

inductive reachable :: "System \<Rightarrow> bool" where
  reach_mounted: "reachable mounted"
| reach_step: "reachable sys \<Longrightarrow> enabled sys ev \<Longrightarrow> reachable (step sys ev)"

section \<open>Concrete inputs\<close>

text \<open>A client whose image call returns no images and whose content call rejects with a non-Error value.\<close>

definition blocking_ai :: AI where
  "blocking_ai = \<lparr> generateContent = (\<lambda>_. Inl NonError),
                   generateImages = (\<lambda>_. Inr \<lparr> generatedImages = None \<rparr>) \<rparr>"

text \<open>A browser that decodes every image as one pixel and never yields a 2D context.\<close>

definition no_context :: Browser where
  "no_context = \<lparr> load_image = (\<lambda>_. Some (1, 1)), getContext_2d = (\<lambda>_. False),
                  toDataURL_jpeg = (\<lambda>_. ''data:,'') \<rparr>"

text \<open>The page after the prompt has been emptied.\<close>

definition blank :: System where
  "blank = mounted\<lparr>ui := (ui mounted)\<lparr>prompt := []\<rparr>\<rparr>"



section \<open>Rounding to binary64\<close>

text \<open>
  What the results on the canvas need of \<open>fl\<close>: it is monotone, it leaves a value with a
  significand below \<open>2\<^sup>5\<^sup>3\<close> unchanged, and its relative error is at most \<open>2\<^sup>-\<^sup>5\<^sup>3\<close>.
\<close>

lemma round_even_lower: "y - 1 / 2 \<le> of_int (round_even y)"
  unfolding round_even_def Let_def by (simp; linarith)

lemma round_even_upper: "of_int (round_even y) \<le> y + 1 / 2"
  unfolding round_even_def Let_def by (simp; linarith)

lemma round_even_of_int: "round_even (of_int n) = n"
  by (simp add: round_even_def)

lemma round_even_mono: "y \<le> z \<Longrightarrow> round_even y \<le> round_even z"
proof -
  assume yz: "y \<le> z"
  have fy: "\<lfloor>y\<rfloor> \<le> \<lfloor>z\<rfloor>" using yz by (rule floor_mono)
  show ?thesis
  proof (cases "\<lfloor>y\<rfloor> = \<lfloor>z\<rfloor>")
    case True
    with yz show ?thesis unfolding round_even_def Let_def by (simp; linarith)
  next
    case False
    with fy have "\<lfloor>y\<rfloor> + 1 \<le> \<lfloor>z\<rfloor>" by simp
    moreover have "round_even y \<le> \<lfloor>y\<rfloor> + 1" unfolding round_even_def Let_def by simp
    moreover have "\<lfloor>z\<rfloor> \<le> round_even z" unfolding round_even_def Let_def by simp
    ultimately show ?thesis by linarith
  qed
qed

lemma round_even_unique:
  "of_int n - 1 / 2 < y \<Longrightarrow> y < of_int n + 1 / 2 \<Longrightarrow> round_even y = n"
proof -
  assume a: "of_int n - 1 / 2 < y" and b: "y < of_int n + 1 / 2"
  have "(of_int (round_even y) :: rat) < of_int n + 1"
    using round_even_upper [of y] b by linarith
  then have "round_even y < n + 1" by (metis of_int_1 of_int_add of_int_less_iff)
  moreover have "(of_int n :: rat) - 1 < of_int (round_even y)"
    using round_even_lower [of y] a by linarith
  then have "n - 1 < round_even y" by (metis of_int_1 of_int_diff of_int_less_iff)
  ultimately show ?thesis by linarith
qed

lemma ilog2_bounds:
  assumes "0 < x"
  shows "2 powi ilog2 x \<le> x \<and> x < 2 powi (ilog2 x + 1)"
proof -
  obtain p q where pq: "quotient_of x = (p, q)" by (cases "quotient_of x")
  then have q: "0 < q" and x: "x = of_int p / of_int q"
    by (auto simp add: quotient_of_denom_pos quotient_of_div)
  from assms x q have p: "0 < p" by (simp add: zero_less_divide_iff)
  define a where "a = floorlog 2 (nat p)"
  define b where "b = floorlog 2 (nat q)"
  have ab: "2 ^ (a - 1) \<le> nat p" "nat p < 2 ^ a" "2 ^ (b - 1) \<le> nat q" "nat q < 2 ^ b"
    using floorlog_bounds [of "nat p" 2] floorlog_bounds [of "nat q" 2] p q
    by (simp_all add: a_def b_def)
  have a1: "1 \<le> a" and b1: "1 \<le> b"
    using p q by (simp_all add: a_def b_def floorlog_def)
  have P: "(2::rat) ^ (a - 1) \<le> of_int p" "(of_int p :: rat) < 2 ^ a"
    using ab(1,2) p
    by (metis of_nat_le_iff of_nat_numeral of_nat_power of_int_of_nat_eq nat_0_le less_imp_le,
        metis of_nat_less_iff of_nat_numeral of_nat_power of_int_of_nat_eq nat_0_le less_imp_le)
  have Q: "(2::rat) ^ (b - 1) \<le> of_int q" "(of_int q :: rat) < 2 ^ b"
    using ab(3,4) q
    by (metis of_nat_le_iff of_nat_numeral of_nat_power of_int_of_nat_eq nat_0_le less_imp_le,
        metis of_nat_less_iff of_nat_numeral of_nat_power of_int_of_nat_eq nat_0_le less_imp_le)
  define d where "d = int a - int b"
  have up: "x < 2 powi (d + 1)"
  proof -
    have "x * of_int q = of_int p" using x q by simp
    also have "\<dots> < 2 ^ a" by (rule P(2))
    also have "\<dots> = 2 powi (d + 1) * 2 ^ (b - 1)"
    proof -
      have "(2::rat) powi (d + 1) * 2 ^ (b - 1) = 2 powi (d + 1) * 2 powi (int (b - 1))" by simp
      also have "\<dots> = 2 powi (d + 1 + int (b - 1))" by (simp add: power_int_add)
      also have "d + 1 + int (b - 1) = int a" using b1 by (simp add: d_def)
      finally show ?thesis by simp
    qed
    also have "\<dots> \<le> 2 powi (d + 1) * of_int q"
      using Q(1) by (simp add: mult_left_mono)
    finally show ?thesis using q by simp
  qed
  have lo: "2 powi (d - 1) \<le> x"
  proof -
    have "(2::rat) powi (d - 1) * of_int q \<le> 2 powi (d - 1) * 2 ^ b"
      using Q(2) by (simp add: mult_left_mono)
    also have "\<dots> = 2 ^ (a - 1)"
    proof -
      have "(2::rat) powi (d - 1) * 2 ^ b = 2 powi (d - 1) * 2 powi (int b)" by simp
      also have "\<dots> = 2 powi (d - 1 + int b)" by (simp add: power_int_add)
      also have "d - 1 + int b = int (a - 1)" using a1 by (simp add: d_def)
      finally show ?thesis by simp
    qed
    also have "\<dots> \<le> of_int p" by (rule P(1))
    also have "\<dots> = x * of_int q" using x q by simp
    finally show ?thesis using q by simp
  qed
  have e: "ilog2 x = (if 2 powi d \<le> x then d else d - 1)"
    by (simp add: ilog2_def pq a_def b_def d_def Let_def)
  show ?thesis
  proof (cases "2 powi d \<le> x")
    case True
    with e up show ?thesis by simp
  next
    case False
    with e lo show ?thesis by simp
  qed
qed


lemma ilog2_unique:
  assumes "0 < x" "2 powi e \<le> x" "x < 2 powi (e + 1)"
  shows "ilog2 x = e"
proof -
  have b: "2 powi ilog2 x \<le> x" "x < 2 powi (ilog2 x + 1)"
    using ilog2_bounds [OF assms(1)] by simp_all
  have "\<not> e + 1 \<le> ilog2 x"
  proof
    assume "e + 1 \<le> ilog2 x"
    then have "(2::rat) powi (e + 1) \<le> 2 powi ilog2 x" by (intro power_int_increasing) simp_all
    with b(1) assms(3) show False by linarith
  qed
  moreover have "\<not> ilog2 x + 1 \<le> e"
  proof
    assume "ilog2 x + 1 \<le> e"
    then have "(2::rat) powi (ilog2 x + 1) \<le> 2 powi e" by (intro power_int_increasing) simp_all
    with b(2) assms(2) show False by linarith
  qed
  ultimately show ?thesis by linarith
qed

lemma p2_add: "(2::rat) powi a * 2 powi b = 2 powi (a + b)"
  by (simp add: power_int_add)

lemma fl_0: "fl 0 = 0"
  by (simp add: fl_def)

lemma fl_minus: "fl (- x) = - fl x"
  by (simp add: fl_def Let_def sgn_minus)

lemma fl_pos_eq:
  "0 < x \<Longrightarrow> fl x = of_int (round_even (x / 2 powi (ilog2 x - 52))) * 2 powi (ilog2 x - 52)"
  by (simp add: fl_def Let_def)

lemma scaled_bounds:
  assumes "0 < x"
  shows "2 ^ 52 \<le> x / 2 powi (ilog2 x - 52)" "x / 2 powi (ilog2 x - 52) < 2 ^ 53"
proof -
  let ?e = "ilog2 x"
  let ?u = "(2::rat) powi (?e - 52)"
  have u: "0 < ?u" by simp
  have b: "2 powi ?e \<le> x" "x < 2 powi (?e + 1)"
    using ilog2_bounds [OF assms] by simp_all
  have l: "(2::rat) ^ 52 * ?u = 2 powi ?e"
    using p2_add [of 52 "?e - 52"] by simp
  have h: "(2::rat) ^ 53 * ?u = 2 powi (?e + 1)"
    using p2_add [of 53 "?e - 52"] by (simp add: add.commute)
  show "2 ^ 52 \<le> x / ?u" using b(1) l u by (simp add: pos_le_divide_eq)
  show "x / ?u < 2 ^ 53" using b(2) h u by (simp add: pos_divide_less_eq)
qed

lemma fl_pos_bounds:
  assumes "0 < x"
  shows "2 powi ilog2 x \<le> fl x" "fl x \<le> 2 powi (ilog2 x + 1)"
proof -
  let ?e = "ilog2 x"
  let ?u = "(2::rat) powi (?e - 52)"
  let ?y = "x / ?u"
  have u: "0 < ?u" by simp
  have l: "(2::rat) ^ 52 * ?u = 2 powi ?e"
    using p2_add [of 52 "?e - 52"] by simp
  have h: "(2::rat) ^ 53 * ?u = 2 powi (?e + 1)"
    using p2_add [of 53 "?e - 52"] by (simp add: add.commute)
  have "round_even (of_int (2 ^ 52)) \<le> round_even ?y"
    using scaled_bounds(1) [OF assms] by (intro round_even_mono) simp
  then have lo: "2 ^ 52 \<le> round_even ?y" by (simp only: round_even_of_int)
  have "round_even ?y \<le> round_even (of_int (2 ^ 53))"
    using scaled_bounds(2) [OF assms] by (intro round_even_mono) simp
  then have hi: "round_even ?y \<le> 2 ^ 53" by (simp only: round_even_of_int)
  have "(2::rat) ^ 52 \<le> of_int (round_even ?y)" using lo
    by (metis of_int_le_iff of_int_numeral of_int_power)
  then have "2 ^ 52 * ?u \<le> of_int (round_even ?y) * ?u" using u by (simp add: mult_right_mono)
  then show "2 powi ?e \<le> fl x" by (simp only: l fl_pos_eq [OF assms])
  have "(of_int (round_even ?y) :: rat) \<le> 2 ^ 53" using hi
    by (metis of_int_le_iff of_int_numeral of_int_power)
  then have "of_int (round_even ?y) * ?u \<le> 2 ^ 53 * ?u" using u by (simp add: mult_right_mono)
  then show "fl x \<le> 2 powi (?e + 1)" by (simp only: h fl_pos_eq [OF assms])
qed

lemma fl_pos: "0 < x \<Longrightarrow> 0 < fl x"
  using fl_pos_bounds(1) [of x] zero_less_power_int [of "2::rat" "ilog2 x"] by linarith

lemma fl_mono_pos:
  assumes "0 < x" "x \<le> y"
  shows "fl x \<le> fl y"
proof -
  have y: "0 < y" using assms by linarith
  have bx: "2 powi ilog2 x \<le> x" "x < 2 powi (ilog2 x + 1)"
    using ilog2_bounds [OF assms(1)] by simp_all
  have by': "2 powi ilog2 y \<le> y" "y < 2 powi (ilog2 y + 1)"
    using ilog2_bounds [OF y] by simp_all
  have le: "ilog2 x \<le> ilog2 y"
  proof (rule ccontr)
    assume "\<not> ilog2 x \<le> ilog2 y"
    then have "ilog2 y + 1 \<le> ilog2 x" by simp
    then have "(2::rat) powi (ilog2 y + 1) \<le> 2 powi ilog2 x"
      by (intro power_int_increasing) simp_all
    with bx(1) by'(2) assms(2) show False by linarith
  qed
  show ?thesis
  proof (cases "ilog2 x = ilog2 y")
    case True
    let ?u = "(2::rat) powi (ilog2 y - 52)"
    have u: "0 < ?u" by simp
    have "x / ?u \<le> y / ?u" using assms(2) u by (simp add: divide_right_mono)
    then have "round_even (x / ?u) \<le> round_even (y / ?u)" by (rule round_even_mono)
    then have "(of_int (round_even (x / ?u)) :: rat) \<le> of_int (round_even (y / ?u))" by simp
    then have "of_int (round_even (x / ?u)) * ?u \<le> of_int (round_even (y / ?u)) * ?u"
      using u by (simp add: mult_right_mono)
    then show ?thesis by (simp add: fl_pos_eq [OF assms(1)] fl_pos_eq [OF y] True)
  next
    case False
    with le have "ilog2 x + 1 \<le> ilog2 y" by simp
    then have "(2::rat) powi (ilog2 x + 1) \<le> 2 powi ilog2 y"
      by (intro power_int_increasing) simp_all
    with fl_pos_bounds(2) [OF assms(1)] fl_pos_bounds(1) [OF y] show ?thesis by linarith
  qed
qed

lemma fl_mono: "x \<le> y \<Longrightarrow> fl x \<le> fl y"
proof -
  assume xy: "x \<le> y"
  consider "0 < x" | "x \<le> 0" "0 \<le> y" | "y < 0" by linarith
  then show ?thesis
  proof cases
    case 1
    then show ?thesis using xy by (rule fl_mono_pos)
  next
    case 2
    have "fl x \<le> 0"
    proof (cases "x = 0")
      case True then show ?thesis by (simp add: fl_0)
    next
      case False
      with 2 have "0 < - x" by simp
      from fl_pos [OF this] show ?thesis by (simp add: fl_minus)
    qed
    moreover have "0 \<le> fl y"
    proof (cases "y = 0")
      case True then show ?thesis by (simp add: fl_0)
    next
      case False
      with 2 have "0 < y" by simp
      from fl_pos [OF this] show ?thesis by simp
    qed
    ultimately show ?thesis by linarith
  next
    case 3
    then have "0 < - y" "- y \<le> - x" using xy by simp_all
    from fl_mono_pos [OF this] show ?thesis by (simp add: fl_minus)
  qed
qed


lemma fl_error_pos:
  assumes "0 < x"
  shows "\<bar>fl x - x\<bar> \<le> x / 2 ^ 53"
proof -
  let ?e = "ilog2 x"
  let ?u = "(2::rat) powi (?e - 52)"
  let ?y = "x / ?u"
  have u: "0 < ?u" by simp
  have l: "(2::rat) ^ 52 * ?u = 2 powi ?e"
    using p2_add [of 52 "?e - 52"] by simp
  have b: "2 powi ?e \<le> x" using ilog2_bounds [OF assms] by simp
  have d: "\<bar>of_int (round_even ?y) - ?y\<bar> \<le> 1 / 2"
    using round_even_lower [of ?y] round_even_upper [of ?y] by linarith
  have "fl x - x = (of_int (round_even ?y) - ?y) * ?u"
    using u by (simp add: fl_pos_eq [OF assms] algebra_simps)
  then have "\<bar>fl x - x\<bar> = \<bar>of_int (round_even ?y) - ?y\<bar> * ?u"
    using u by (simp add: abs_mult)
  also have "\<dots> \<le> 1 / 2 * ?u" using d u by (intro mult_right_mono) simp_all
  also have "\<dots> = 2 powi ?e / 2 ^ 53" using l by simp
  also have "\<dots> \<le> x / 2 ^ 53" using b by (simp add: divide_right_mono)
  finally show ?thesis .
qed

lemma fl_error: "\<bar>fl x - x\<bar> \<le> \<bar>x\<bar> / 2 ^ 53"
proof -
  consider "0 < x" | "x = 0" | "0 < - x" by linarith
  then show ?thesis
  proof cases
    case 1
    with fl_error_pos [OF 1] show ?thesis by simp
  next
    case 2
    then show ?thesis by (simp add: fl_0)
  next
    case 3
    have "\<bar>fl x - x\<bar> = \<bar>fl (- x) - (- x)\<bar>" by (simp add: fl_minus)
    also have "\<dots> \<le> (- x) / 2 ^ 53" by (rule fl_error_pos [OF 3])
    finally show ?thesis using 3 by simp
  qed
qed

lemma fl_exact_pos:
  assumes "0 < m" "m < 2 ^ 53"
  shows "fl (of_int m * 2 powi k) = of_int m * 2 powi k"
proof -
  define x :: rat where "x = of_int m * 2 powi k"
  define e where "e = ilog2 x"
  define u :: rat where "u = 2 powi (e - 52)"
  have x: "0 < x" using assms(1) by (simp add: x_def)
  have b: "2 powi e \<le> x" using ilog2_bounds [OF x] by (simp add: e_def)
  have "(of_int m :: rat) < 2 ^ 53" using assms(2)
    by (metis of_int_less_iff of_int_numeral of_int_power)
  then have "x < 2 ^ 53 * 2 powi k" by (simp add: x_def mult_strict_right_mono)
  also have "\<dots> = 2 powi (53 + k)" using p2_add [of 53 k] by simp
  finally have lt: "x < 2 powi (53 + k)" .
  have "\<not> 53 + k \<le> e"
  proof
    assume "53 + k \<le> e"
    then have "(2::rat) powi (53 + k) \<le> 2 powi e" by (intro power_int_increasing) simp_all
    with b lt show False by linarith
  qed
  then have j: "0 \<le> k - (e - 52)" by linarith
  define j where "j = nat (k - (e - 52))"
  have kj: "k = int j + (e - 52)" using j by (simp add: j_def)
  have "(2::rat) powi k = 2 powi (int j) * u"
    unfolding u_def using p2_add [of "int j" "e - 52"] kj by simp
  then have pk: "(2::rat) powi k = 2 ^ j * u" by simp
  have u: "u \<noteq> 0" by (simp add: u_def)
  have "x / u = of_int m * 2 ^ j" using u by (simp add: x_def pk)
  also have "\<dots> = of_int (m * 2 ^ j)" by simp
  finally have "round_even (x / u) = m * 2 ^ j" by (simp only: round_even_of_int)
  then have "fl x = of_int (m * 2 ^ j) * u"
    using fl_pos_eq [OF x] by (simp add: e_def u_def)
  also have "\<dots> = x" by (simp add: x_def pk)
  finally show ?thesis by (simp add: x_def)
qed

lemma fl_exact:
  assumes "\<bar>m\<bar> < 2 ^ 53"
  shows "fl (of_int m * 2 powi k) = of_int m * 2 powi k"
proof -
  consider "0 < m" | "m = 0" | "0 < - m" by linarith
  then show ?thesis
  proof cases
    case 1
    with assms show ?thesis by (intro fl_exact_pos) simp_all
  next
    case 2
    then show ?thesis by (simp add: fl_0)
  next
    case 3
    with assms have "fl (of_int (- m) * 2 powi k) = of_int (- m) * 2 powi k"
      by (intro fl_exact_pos) simp_all
    then show ?thesis by (simp add: fl_minus)
  qed
qed

lemma fl_of_int: "\<bar>m\<bar> < 2 ^ 53 \<Longrightarrow> fl (of_int m) = of_int m"
  using fl_exact [of m 0] by simp

lemma fl_of_nat: "n < 2 ^ 53 \<Longrightarrow> fl (of_nat n) = of_nat n"
  using fl_of_int [of "int n"] by simp

lemma fl_idem_pos:
  assumes "0 < x"
  shows "fl (fl x) = fl x"
proof -
  let ?e = "ilog2 x"
  let ?u = "(2::rat) powi (?e - 52)"
  let ?n = "round_even (x / ?u)"
  have "round_even (of_int (2 ^ 52)) \<le> ?n"
    using scaled_bounds(1) [OF assms] by (intro round_even_mono) simp
  then have lo: "2 ^ 52 \<le> ?n" by (simp only: round_even_of_int)
  have "?n \<le> round_even (of_int (2 ^ 53))"
    using scaled_bounds(2) [OF assms] by (intro round_even_mono) simp
  then have hi: "?n \<le> 2 ^ 53" by (simp only: round_even_of_int)
  have eq: "fl x = of_int ?n * ?u" by (rule fl_pos_eq [OF assms])
  show ?thesis
  proof (cases "?n = 2 ^ 53")
    case True
    have "fl x = 2 ^ 53 * ?u" by (simp add: eq True)
    also have "\<dots> = of_int 1 * 2 powi (53 + (?e - 52))" using p2_add [of 53 "?e - 52"] by simp
    finally have "fl x = of_int 1 * 2 powi (53 + (?e - 52))" .
    moreover have "fl (of_int 1 * 2 powi (53 + (?e - 52))) = of_int 1 * 2 powi (53 + (?e - 52))"
      by (rule fl_exact_pos) simp_all
    ultimately show ?thesis by simp
  next
    case False
    with hi have "?n < 2 ^ 53" by simp
    moreover from lo have "0 < ?n" by simp
    ultimately show ?thesis using fl_exact_pos [of ?n "?e - 52"] by (simp only: eq)
  qed
qed

lemma fl_idem: "fl (fl x) = fl x"
proof -
  consider "0 < x" | "x = 0" | "0 < - x" by linarith
  then show ?thesis
  proof cases
    case 1 then show ?thesis by (rule fl_idem_pos)
  next
    case 2 then show ?thesis by (simp add: fl_0)
  next
    case 3
    from fl_idem_pos [OF 3] show ?thesis by (simp add: fl_minus)
  qed
qed

lemma fl_eval:
  assumes "0 < x" "2 ^ 52 \<le> x * 2 ^ k" "x * 2 ^ k < 2 ^ 53" "round_even (x * 2 ^ k) = n"
  shows "fl x = of_int n / 2 ^ k"
proof -
  define e where "e = 52 - int k"
  have i: "(2::rat) powi (- int k) = 1 / 2 ^ k"
    by (simp add: power_int_minus field_simps)
  have a: "(2::rat) powi e = 2 ^ 52 / 2 ^ k"
    using p2_add [of 52 "- int k"] by (simp add: i e_def)
  have "e + 1 = 53 + (- int k)" by (simp add: e_def)
  then have b: "(2::rat) powi (e + 1) = 2 ^ 53 / 2 ^ k"
    using p2_add [of 53 "- int k"] by (simp add: i)
  have "2 powi e \<le> x" using assms(2) by (simp add: a pos_divide_le_eq)
  moreover have "x < 2 powi (e + 1)" using assms(3) by (simp only: b) (simp add: pos_less_divide_eq)
  ultimately have e: "ilog2 x = e" using assms(1) by (intro ilog2_unique)
  have "e - 52 = - int k" by (simp add: e_def)
  then show ?thesis using assms(4) by (simp add: fl_pos_eq [OF assms(1)] e i)
qed

lemma fl_16_9: "fl (16 / 9) = 8006399337547548 / 2 ^ 52"
  using fl_eval [of "16 / 9" 52 8006399337547548] by (simp add: round_even_unique)

lemma fl_4_3: "fl (4 / 3) = 6004799503160661 / 2 ^ 52"
  using fl_eval [of "4 / 3" 52 6004799503160661] by (simp add: round_even_unique)

lemma fl_1_100: "fl (1 / 100) = 5764607523034235 / 2 ^ 59"
  using fl_eval [of "1 / 100" 59 5764607523034235] by (simp add: round_even_unique)

lemma fl_101_100: "fl (101 / 100) = 4548635623644201 / 2 ^ 52"
  using fl_eval [of "101 / 100" 52 4548635623644201] by (simp add: round_even_unique)

section \<open>The generation service: results\<close>


lemma blocked_response_gives_safety_message:
  "generateThumbnail blocking_ai ''a cat'' [] AR_16_9 None = Inl (Error safety_message)"
  by (simp add: generateThumbnail_def generateThumbnail_try_def thumbnailRequest_def
      blocking_ai_def generateThumbnail_catch_def errorMessage_of_def no_image_text_def)

lemma non_error_rejection_gets_message:
  "getPromptSuggestions blocking_ai id (\<lambda>_. Inr JNull) ''a cat'' =
     Inl (Error ''Failed to get prompt suggestions: An unknown error occurred.'')"
  by (simp add: getPromptSuggestions_def getPromptSuggestions_try_def blocking_ai_def
      getPromptSuggestions_catch_def errorMessage_of_def)

text \<open>
  C9. The aspect ratio is a field of the text-to-image request and of no other: with a
  reference image the request, and with it the result of the call, is the same for every
  aspect ratio; without one, two calls build the same request only for the same ratio.
\<close>

theorem aspect_ratio_only_in_text_mode:
  "thumbnailRequest p n ar None = Inr (imagesRequest p n ar)
   \<and> cfg_aspectRatio (gi_config (imagesRequest p n ar)) = ar
   \<and> (thumbnailRequest p n ar None = thumbnailRequest p n ar' None) = (ar = ar')
   \<and> thumbnailRequest p n ar (Some i) = Inl (editRequest p n i)
   \<and> thumbnailRequest p n ar (Some i) = thumbnailRequest p n ar' (Some i)
   \<and> generateThumbnail ai p n ar (Some i) = generateThumbnail ai p n ar' (Some i)"
  by (auto simp add: thumbnailRequest_def imagesRequest_def generateThumbnail_def
      generateThumbnail_try_def)

section \<open>The canvas compositor: results\<close>

lemma Math_round_of_int: "Math_round (of_int n) = n"
proof -
  have "\<lfloor>(of_int n :: rat) + 1 / 2\<rfloor> = n" by (rule floor_unique) simp_all
  then show ?thesis by (simp add: Math_round_def)
qed

lemma Math_round_of_nat: "Math_round (of_nat n) = int n"
  using Math_round_of_int [of "int n"] by simp

lemma Math_round_mono: "x \<le> y \<Longrightarrow> Math_round x \<le> Math_round y"
  by (simp add: Math_round_def floor_mono)

lemma exact_ratio_cases:
  "exact_ratio ar = 16 / 9 \<or> exact_ratio ar = 1 \<or> exact_ratio ar = 9 / 16
     \<or> exact_ratio ar = 4 / 3 \<or> exact_ratio ar = 3 / 4"
  by (cases ar) (simp_all add: exact_ratio_def)

lemma fl_1: "fl 1 = 1"
  using fl_of_int [of 1] by simp

lemma fl_2: "fl 2 = 2"
  using fl_of_int [of 2] by simp

lemma fl_half: "fl (1 / 2) = 1 / 2"
  using fl_exact [of 1 "- 1"] by simp

lemma fl_9_16: "fl (9 / 16) = 9 / 16"
  using fl_exact [of 9 "- 4"] by (simp add: power_int_minus)

lemma fl_3_4: "fl (3 / 4) = 3 / 4"
  using fl_exact [of 3 "- 2"] by (simp add: power_int_minus)

lemma targetRatio_range: "1 / 2 \<le> fl (exact_ratio ar) \<and> fl (exact_ratio ar) \<le> 2"
proof -
  have "1 / 2 \<le> exact_ratio ar" "exact_ratio ar \<le> 2"
    by (cases ar; simp add: exact_ratio_def)+
  then have "fl (1 / 2) \<le> fl (exact_ratio ar)" "fl (exact_ratio ar) \<le> fl 2"
    by (auto intro: fl_mono)
  then show ?thesis by (simp add: fl_half fl_2)
qed

lemma canvas_size_pos:
  assumes "0 < originalH"
  shows "canvas_size originalW originalH ar =
     (if \<bar>fl (fl (exact_ratio ar) - fl (of_nat originalW / of_nat originalH))\<bar> > fl (1 / 100) then
        (if fl (exact_ratio ar) > fl (of_nat originalW / of_nat originalH)
         then (Math_round (fl (of_nat originalH * fl (exact_ratio ar))), int originalH)
         else (int originalW, Math_round (fl (of_nat originalW / fl (exact_ratio ar)))))
      else (int originalW, int originalH))"
  using assms
  by (simp add: canvas_size_def exact_ratio_def Let_def Math_round_of_nat split: prod.splits)


lemma fl_gt_imp:
  assumes "fl b < fl a"
  shows "b < a"
proof (rule ccontr)
  assume "\<not> b < a"
  then have "fl a \<le> fl b" by (intro fl_mono) simp
  with assms show False by simp
qed

lemma targetRatio_gt_imp:
  "fl (of_nat w / of_nat h) < fl (exact_ratio ar) \<Longrightarrow> of_nat w / of_nat h < fl (exact_ratio ar)"
  using fl_gt_imp [of "of_nat w / of_nat h" "fl (exact_ratio ar)"] by (simp add: fl_idem)

lemma targetRatio_lt_imp:
  "fl (exact_ratio ar) < fl (of_nat w / of_nat h) \<Longrightarrow> fl (exact_ratio ar) < of_nat w / of_nat h"
  using fl_gt_imp [of "fl (exact_ratio ar)" "of_nat w / of_nat h"] by (simp add: fl_idem)

lemma tolerance_pos: "0 < fl (1 / 100)"
  by (rule fl_pos) simp

lemma guard_imp_neq: "fl (1 / 100) < \<bar>fl (t - r)\<bar> \<Longrightarrow> t \<noteq> r"
  using tolerance_pos by (auto simp add: fl_0)

lemma canvas_width_resized:
  assumes "0 < h" "h < 2 ^ 53" "w < 2 ^ 53"
    and "fl (of_nat w / of_nat h) < fl (exact_ratio ar)"
  shows "int w \<le> Math_round (fl (of_nat h * fl (exact_ratio ar)))"
proof -
  have "(of_nat w :: rat) / of_nat h < fl (exact_ratio ar)"
    using assms(4) by (rule targetRatio_gt_imp)
  then have "(of_nat w :: rat) < of_nat h * fl (exact_ratio ar)"
    using assms(1) by (simp add: pos_divide_less_eq mult.commute)
  then have "fl (of_nat w) \<le> fl (of_nat h * fl (exact_ratio ar))"
    by (intro fl_mono) simp
  then have "Math_round (of_nat w) \<le> Math_round (fl (of_nat h * fl (exact_ratio ar)))"
    using assms(3) by (intro Math_round_mono) (simp add: fl_of_nat)
  then show ?thesis by (simp add: Math_round_of_nat)
qed

lemma canvas_height_resized:
  assumes "0 < h" "h < 2 ^ 53" "w < 2 ^ 53"
    and "fl (exact_ratio ar) < fl (of_nat w / of_nat h)"
  shows "int h \<le> Math_round (fl (of_nat w / fl (exact_ratio ar)))"
proof -
  have t: "0 < fl (exact_ratio ar)" using targetRatio_range [of ar] by linarith
  have "fl (exact_ratio ar) < (of_nat w :: rat) / of_nat h"
    using assms(4) by (rule targetRatio_lt_imp)
  then have "fl (exact_ratio ar) * of_nat h < (of_nat w :: rat)"
    using assms(1) by (simp add: pos_less_divide_eq)
  then have "(of_nat h :: rat) < of_nat w / fl (exact_ratio ar)"
    using t by (simp add: pos_less_divide_eq mult.commute)
  then have "fl (of_nat h) \<le> fl (of_nat w / fl (exact_ratio ar))"
    by (intro fl_mono) simp
  then have "Math_round (of_nat h) \<le> Math_round (fl (of_nat w / fl (exact_ratio ar)))"
    using assms(2) by (intro Math_round_mono) (simp add: fl_of_nat)
  then show ?thesis by (simp add: Math_round_of_nat)
qed

lemma canvas_contains:
  assumes "0 < h" "h < 2 ^ 53" "w < 2 ^ 53"
  shows "int w \<le> fst (canvas_size w h ar) \<and> int h \<le> snd (canvas_size w h ar)"
proof -
  let ?t = "fl (exact_ratio ar)"
  let ?r = "fl (of_nat w / of_nat h)"
  show ?thesis
  proof (cases "fl (1 / 100) < \<bar>fl (?t - ?r)\<bar>")
    case False
    then show ?thesis by (simp add: canvas_size_pos [OF assms(1)])
  next
    case True
    then have ne: "?t \<noteq> ?r" by (rule guard_imp_neq)
    show ?thesis
    proof (cases "?r < ?t")
      case gt: True
      from canvas_width_resized [OF assms gt] True gt show ?thesis
        by (simp add: canvas_size_pos [OF assms(1)])
    next
      case ngt: False
      with ne have lt: "?t < ?r" by simp
      from canvas_height_resized [OF assms lt] True ngt show ?thesis
        by (simp add: canvas_size_pos [OF assms(1)])
    qed
  qed
qed


lemma ratio_gap_above:
  fixes a b :: int
  assumes "0 < b" "(1::rat) / 100 < \<bar>of_int a\<bar> / of_int b"
  shows "(1::rat) / 100 + 1 / (100 * of_int b) \<le> \<bar>of_int a\<bar> / of_int b"
proof -
  have "(of_int b :: rat) < 100 * of_int \<bar>a\<bar>"
    using assms by (simp add: pos_less_divide_eq)
  then have "(of_int b :: rat) < of_int (100 * \<bar>a\<bar>)" by simp
  then have "b < 100 * \<bar>a\<bar>" by (simp only: of_int_less_iff)
  then have "b + 1 \<le> 100 * \<bar>a\<bar>" by simp
  then have "(of_int (b + 1) :: rat) \<le> of_int (100 * \<bar>a\<bar>)" by (simp only: of_int_le_iff)
  then have "(of_int b :: rat) + 1 \<le> 100 * \<bar>of_int a\<bar>" by simp
  then have "((of_int b :: rat) + 1) / (100 * of_int b) \<le> 100 * \<bar>of_int a\<bar> / (100 * of_int b)"
    using assms(1) by (intro divide_right_mono) simp_all
  moreover have "((of_int b :: rat) + 1) / (100 * of_int b) = 1 / 100 + 1 / (100 * of_int b)"
    using assms(1) by (simp add: add_divide_distrib)
  moreover have "100 * \<bar>of_int a :: rat\<bar> / (100 * of_int b) = \<bar>of_int a\<bar> / of_int b"
    by simp
  ultimately show ?thesis by simp
qed

lemma ratio_gap_below:
  fixes a b :: int
  assumes "0 < b" "\<bar>of_int a\<bar> / of_int b < (1::rat) / 100"
  shows "\<bar>of_int a\<bar> / of_int b \<le> (1::rat) / 100 - 1 / (100 * of_int b)"
proof -
  have "100 * of_int \<bar>a\<bar> < (of_int b :: rat)"
    using assms by (simp add: pos_divide_less_eq)
  then have "(of_int (100 * \<bar>a\<bar>) :: rat) < of_int b" by simp
  then have "100 * \<bar>a\<bar> < b" by (simp only: of_int_less_iff)
  then have "100 * \<bar>a\<bar> \<le> b - 1" by simp
  then have "(of_int (100 * \<bar>a\<bar>) :: rat) \<le> of_int (b - 1)" by (simp only: of_int_le_iff)
  then have "100 * \<bar>of_int a\<bar> \<le> (of_int b :: rat) - 1" by simp
  then have "100 * \<bar>of_int a\<bar> / (100 * of_int b) \<le> ((of_int b :: rat) - 1) / (100 * of_int b)"
    using assms(1) by (intro divide_right_mono) simp_all
  moreover have "((of_int b :: rat) - 1) / (100 * of_int b) = 1 / 100 - 1 / (100 * of_int b)"
    using assms(1) by (simp add: diff_divide_distrib)
  moreover have "100 * \<bar>of_int a :: rat\<bar> / (100 * of_int b) = \<bar>of_int a\<bar> / of_int b"
    by simp
  ultimately show ?thesis by simp
qed

lemma exact_diff_frac:
  assumes "0 < h"
  shows "\<exists>a b :: int. 0 < b \<and> b \<le> 16 * int h \<and>
           \<bar>exact_ratio ar - of_nat w / of_nat h\<bar> = \<bar>of_int a :: rat\<bar> / of_int b"
proof -
  have h: "(of_nat h :: rat) \<noteq> 0" using assms by simp
  show ?thesis
  proof (cases ar)
    case AR_16_9
    have "exact_ratio ar - of_nat w / of_nat h = (of_int (16 * int h - 9 * int w) :: rat) / of_int (9 * int h)"
      using h by (simp add: AR_16_9 exact_ratio_def field_simps)
    then have "\<bar>exact_ratio ar - of_nat w / of_nat h\<bar> = \<bar>of_int (16 * int h - 9 * int w) :: rat\<bar> / of_int (9 * int h)"
      using assms by (simp add: abs_divide)
    then show ?thesis using assms by (intro exI [of _ "16 * int h - 9 * int w"] exI [of _ "9 * int h"]) simp
  next
    case AR_1_1
    have "exact_ratio ar - of_nat w / of_nat h = (of_int (int h - int w) :: rat) / of_int (int h)"
      using h by (simp add: AR_1_1 exact_ratio_def field_simps)
    then have "\<bar>exact_ratio ar - of_nat w / of_nat h\<bar> = \<bar>of_int (int h - int w) :: rat\<bar> / of_int (int h)"
      using assms by (simp add: abs_divide)
    then show ?thesis using assms by (intro exI [of _ "int h - int w"] exI [of _ "int h"]) simp
  next
    case AR_9_16
    have "exact_ratio ar - of_nat w / of_nat h = (of_int (9 * int h - 16 * int w) :: rat) / of_int (16 * int h)"
      using h by (simp add: AR_9_16 exact_ratio_def field_simps)
    then have "\<bar>exact_ratio ar - of_nat w / of_nat h\<bar> = \<bar>of_int (9 * int h - 16 * int w) :: rat\<bar> / of_int (16 * int h)"
      using assms by (simp add: abs_divide)
    then show ?thesis using assms by (intro exI [of _ "9 * int h - 16 * int w"] exI [of _ "16 * int h"]) simp
  next
    case AR_4_3
    have "exact_ratio ar - of_nat w / of_nat h = (of_int (4 * int h - 3 * int w) :: rat) / of_int (3 * int h)"
      using h by (simp add: AR_4_3 exact_ratio_def field_simps)
    then have "\<bar>exact_ratio ar - of_nat w / of_nat h\<bar> = \<bar>of_int (4 * int h - 3 * int w) :: rat\<bar> / of_int (3 * int h)"
      using assms by (simp add: abs_divide)
    then show ?thesis using assms by (intro exI [of _ "4 * int h - 3 * int w"] exI [of _ "3 * int h"]) simp
  next
    case AR_3_4
    have "exact_ratio ar - of_nat w / of_nat h = (of_int (3 * int h - 4 * int w) :: rat) / of_int (4 * int h)"
      using h by (simp add: AR_3_4 exact_ratio_def field_simps)
    then have "\<bar>exact_ratio ar - of_nat w / of_nat h\<bar> = \<bar>of_int (3 * int h - 4 * int w) :: rat\<bar> / of_int (4 * int h)"
      using assms by (simp add: abs_divide)
    then show ?thesis using assms by (intro exI [of _ "3 * int h - 4 * int w"] exI [of _ "4 * int h"]) simp
  qed
qed

lemma gap_bound:
  fixes b :: int
  assumes "0 < b" "b \<le> 16 * int h" "h < 2 ^ 30"
  shows "(1::rat) / 1717986918400 \<le> 1 / (100 * of_int b)"
proof -
  have "int h < 2 ^ 30" using assms(3) by (metis of_nat_less_iff of_nat_numeral of_nat_power)
  with assms(2) have "b \<le> 17179869184" by simp
  then have "(of_int b :: rat) \<le> of_int 17179869184" by (simp only: of_int_le_iff)
  then have "100 * (of_int b :: rat) \<le> 1717986918400" by simp
  moreover have "0 < 100 * (of_int b :: rat)" using assms(1) by simp
  ultimately show ?thesis by (simp add: field_simps)
qed


lemma exact_ratio_range: "9 / 16 \<le> exact_ratio ar \<and> exact_ratio ar \<le> 16 / 9"
  by (cases ar) (simp_all add: exact_ratio_def)

lemma tolerance_value: "fl (1 / 100) = 5764607523034235 / 576460752303423488"
  using fl_1_100 by simp

lemma guard_of_exact_above:
  assumes "0 < w" "0 < h" "h < 2 ^ 30"
    and "1 / 100 < \<bar>exact_ratio ar - of_nat w / of_nat h\<bar>"
  shows "fl (1 / 100) < \<bar>fl (fl (exact_ratio ar) - fl (of_nat w / of_nat h))\<bar>"
proof -
  define T where "T = exact_ratio ar"
  define R :: rat where "R = of_nat w / of_nat h"
  define t where "t = fl T"
  define r where "r = fl R"
  define g where "g = fl (t - r)"
  obtain a b :: int where ab: "0 < b" "b \<le> 16 * int h"
    "\<bar>T - R\<bar> = \<bar>of_int a :: rat\<bar> / of_int b"
    using exact_diff_frac [OF assms(2), of ar w] unfolding T_def R_def by blast
  have "(1::rat) / 100 + 1 / (100 * of_int b) \<le> \<bar>of_int a\<bar> / of_int b"
    using assms(4) ab(1) unfolding T_def [symmetric] R_def [symmetric] ab(3)
    by (intro ratio_gap_above)
  with gap_bound [OF ab(1,2) assms(3)]
  have D: "1 / 100 + 1 / 1717986918400 \<le> \<bar>T - R\<bar>" unfolding ab(3) by linarith
  have T: "9 / 16 \<le> T" "T \<le> 16 / 9" using exact_ratio_range [of ar] by (simp_all add: T_def)
  have R: "0 < R" using assms(1,2) by (simp add: R_def)
  have et: "\<bar>t - T\<bar> \<le> T / 9007199254740992"
    using fl_error [of T] T(1) by (simp add: t_def)
  have er: "\<bar>r - R\<bar> \<le> R / 9007199254740992"
    using fl_error [of R] R by (simp add: r_def)
  have eg: "\<bar>g - (t - r)\<bar> \<le> \<bar>t - r\<bar> / 9007199254740992"
    using fl_error [of "t - r"] by (simp add: g_def)
  have tr: "\<bar>T - R\<bar> - T / 9007199254740992 - R / 9007199254740992 \<le> \<bar>t - r\<bar>"
    using et er by linarith
  have Rb: "R \<le> T + \<bar>T - R\<bar>" by linarith
  have gl: "\<bar>t - r\<bar> - \<bar>t - r\<bar> / 9007199254740992 \<le> \<bar>g\<bar>"
    using eg by linarith
  define A where "A = \<bar>t - r\<bar>"
  define E where "E = \<bar>T - R\<bar>"
  define G where "G = \<bar>g\<bar>"
  have "5764607523034235 / 576460752303423488 < G"
    using D T(2) tr Rb gl unfolding A_def [symmetric] E_def [symmetric] G_def [symmetric]
    by linarith
  then have "5764607523034235 / 576460752303423488 < \<bar>g\<bar>" by (simp add: G_def)
  then show ?thesis
    by (simp only: tolerance_value g_def t_def r_def T_def R_def)
qed

lemma guard_of_exact_below:
  assumes "0 < w" "0 < h" "h < 2 ^ 30"
    and "\<bar>exact_ratio ar - of_nat w / of_nat h\<bar> < 1 / 100"
  shows "\<not> fl (1 / 100) < \<bar>fl (fl (exact_ratio ar) - fl (of_nat w / of_nat h))\<bar>"
proof -
  define T where "T = exact_ratio ar"
  define R :: rat where "R = of_nat w / of_nat h"
  define t where "t = fl T"
  define r where "r = fl R"
  define g where "g = fl (t - r)"
  obtain a b :: int where ab: "0 < b" "b \<le> 16 * int h"
    "\<bar>T - R\<bar> = \<bar>of_int a :: rat\<bar> / of_int b"
    using exact_diff_frac [OF assms(2), of ar w] unfolding T_def R_def by blast
  have "\<bar>of_int a\<bar> / of_int b \<le> (1::rat) / 100 - 1 / (100 * of_int b)"
    using assms(4) ab(1) unfolding T_def [symmetric] R_def [symmetric] ab(3)
    by (intro ratio_gap_below)
  with gap_bound [OF ab(1,2) assms(3)]
  have D: "\<bar>T - R\<bar> \<le> 1 / 100 - 1 / 1717986918400" unfolding ab(3) by linarith
  have T: "9 / 16 \<le> T" "T \<le> 16 / 9" using exact_ratio_range [of ar] by (simp_all add: T_def)
  have R: "0 < R" using assms(1,2) by (simp add: R_def)
  have et: "\<bar>t - T\<bar> \<le> T / 9007199254740992"
    using fl_error [of T] T(1) by (simp add: t_def)
  have er: "\<bar>r - R\<bar> \<le> R / 9007199254740992"
    using fl_error [of R] R by (simp add: r_def)
  have eg: "\<bar>g - (t - r)\<bar> \<le> \<bar>t - r\<bar> / 9007199254740992"
    using fl_error [of "t - r"] by (simp add: g_def)
  have tr: "\<bar>t - r\<bar> \<le> \<bar>T - R\<bar> + T / 9007199254740992 + R / 9007199254740992"
    using et er by linarith
  have Rb: "R \<le> T + \<bar>T - R\<bar>" by linarith
  have gl: "\<bar>g\<bar> \<le> \<bar>t - r\<bar> + \<bar>t - r\<bar> / 9007199254740992"
    using eg by linarith
  define A where "A = \<bar>t - r\<bar>"
  define E where "E = \<bar>T - R\<bar>"
  define G where "G = \<bar>g\<bar>"
  have "G \<le> 5764607523034235 / 576460752303423488"
    using D T(2) tr Rb gl unfolding A_def [symmetric] E_def [symmetric] G_def [symmetric]
    by linarith
  then have "\<bar>g\<bar> \<le> 5764607523034235 / 576460752303423488" by (simp add: G_def)
  then show ?thesis
    by (simp only: tolerance_value g_def t_def r_def T_def R_def not_less)
qed


lemma Math_round_near:
  fixes a b :: int
  assumes "0 < b" "a mod b \<noteq> 0" "y + 1 / 2 = of_int a / of_int b"
    and "\<bar>y' - y\<bar> < 1 / of_int b"
  shows "Math_round y' = Math_round y"
proof -
  define n where "n = a div b"
  define k where "k = a mod b"
  have k: "1 \<le> k" "k \<le> b - 1"
    using assms(1,2) pos_mod_bound [of b a] pos_mod_sign [of b a] unfolding k_def by linarith+
  have "a = b * n + k" by (simp add: n_def k_def)
  then have "(of_int a :: rat) = of_int b * of_int n + of_int k" by (metis of_int_add of_int_mult)
  then have v: "(of_int a :: rat) / of_int b = of_int n + of_int k / of_int b"
    using assms(1) by (simp add: add_divide_distrib)
  have k1: "(1::rat) / of_int b \<le> of_int k / of_int b"
    using k(1) assms(1) by (intro divide_right_mono) simp_all
  have "(of_int k :: rat) \<le> of_int b - 1" using k(2) by (metis of_int_1 of_int_diff of_int_le_iff)
  then have "(of_int k :: rat) / of_int b \<le> (of_int b - 1) / of_int b"
    using assms(1) by (intro divide_right_mono) simp_all
  then have k2: "(of_int k :: rat) / of_int b \<le> 1 - 1 / of_int b"
    using assms(1) by (simp add: diff_divide_distrib)
  have b: "(0::rat) < 1 / of_int b" using assms(1) by simp
  have "\<lfloor>y + 1 / 2\<rfloor> = n"
    using k1 k2 b assms(3) v by (intro floor_unique) linarith+
  moreover have "\<lfloor>y' + 1 / 2\<rfloor> = n"
    using k1 k2 assms(3,4) v by (intro floor_unique) linarith+
  ultimately show ?thesis by (simp add: Math_round_def)
qed

lemma Math_round_near_up:
  fixes a b :: int
  assumes "0 < b" "y + 1 / 2 = of_int a / of_int b" "y \<le> y'" "y' < y + 1 / of_int b"
  shows "Math_round y' = Math_round y"
proof -
  define n where "n = a div b"
  define k where "k = a mod b"
  have k: "0 \<le> k" "k \<le> b - 1"
    using assms(1) pos_mod_bound [of b a] pos_mod_sign [of b a] by (simp_all add: k_def)
  have "a = b * n + k" by (simp add: n_def k_def)
  then have "(of_int a :: rat) = of_int b * of_int n + of_int k" by (metis of_int_add of_int_mult)
  then have v: "(of_int a :: rat) / of_int b = of_int n + of_int k / of_int b"
    using assms(1) by (simp add: add_divide_distrib)
  have k1: "(0::rat) \<le> of_int k / of_int b"
    using k(1) assms(1) by simp
  have "(of_int k :: rat) \<le> of_int b - 1" using k(2) by (metis of_int_1 of_int_diff of_int_le_iff)
  then have "(of_int k :: rat) / of_int b \<le> (of_int b - 1) / of_int b"
    using assms(1) by (intro divide_right_mono) simp_all
  then have k2: "(of_int k :: rat) / of_int b \<le> 1 - 1 / of_int b"
    using assms(1) by (simp add: diff_divide_distrib)
  have b: "(0::rat) < 1 / of_int b" using assms(1) by simp
  have "\<lfloor>y + 1 / 2\<rfloor> = n"
    using k1 k2 b assms(2) v by (intro floor_unique) linarith+
  moreover have "\<lfloor>y' + 1 / 2\<rfloor> = n"
    using k1 k2 assms(2,3,4) v by (intro floor_unique) linarith+
  ultimately show ?thesis by (simp add: Math_round_def)
qed


lemma of_nat_dim: "n < 2 ^ 30 \<Longrightarrow> (of_nat n :: rat) < 1073741824"
  by simp

lemma exact_ratio_simps:
  "exact_ratio AR_16_9 = 16 / 9" "exact_ratio AR_1_1 = 1" "exact_ratio AR_9_16 = 9 / 16"
  "exact_ratio AR_4_3 = 4 / 3" "exact_ratio AR_3_4 = 3 / 4"
  by (simp_all add: exact_ratio_def)

lemma round_mul_16_9:
  assumes "h < 2 ^ 30"
  shows "Math_round (fl (of_nat h * fl (16 / 9))) = Math_round (of_nat h * (16 / 9))"
proof -
  define H :: rat where "H = of_nat h"
  define z where "z = H * (8006399337547548 / 2 ^ 52)"
  have H: "0 \<le> H" "H < 1073741824" using of_nat_dim [OF assms] by (simp_all add: H_def)
  have zH: "z = H * 8006399337547548 / 4503599627370496" by (simp add: z_def)
  have z: "0 \<le> z" using H(1) by (simp add: z_def)
  have e: "\<bar>fl z - z\<bar> \<le> z / 9007199254740992" using fl_error [of z] z by simp
  have m: "(32 * int h + 9) mod 18 \<noteq> 0" by presburger
  have v: "H * (16 / 9) + 1 / 2 = of_int (32 * int h + 9) / of_int 18"
    by (simp add: H_def field_simps)
  have "\<bar>fl z - H * (16 / 9)\<bar> < 1 / 18"
    using e H zH by linarith
  then have d: "\<bar>fl z - H * (16 / 9)\<bar> < 1 / of_int 18" by simp
  have "Math_round (fl z) = Math_round (H * (16 / 9))"
    by (rule Math_round_near [OF _ m v d]) simp
  then show ?thesis by (simp only: fl_16_9 z_def H_def)
qed

lemma round_mul_4_3:
  assumes "h < 2 ^ 30"
  shows "Math_round (fl (of_nat h * fl (4 / 3))) = Math_round (of_nat h * (4 / 3))"
proof -
  define H :: rat where "H = of_nat h"
  define z where "z = H * (6004799503160661 / 2 ^ 52)"
  have H: "0 \<le> H" "H < 1073741824" using of_nat_dim [OF assms] by (simp_all add: H_def)
  have zH: "z = H * 6004799503160661 / 4503599627370496" by (simp add: z_def)
  have z: "0 \<le> z" using H(1) by (simp add: z_def)
  have e: "\<bar>fl z - z\<bar> \<le> z / 9007199254740992" using fl_error [of z] z by simp
  have m: "(8 * int h + 3) mod 6 \<noteq> 0" by presburger
  have v: "H * (4 / 3) + 1 / 2 = of_int (8 * int h + 3) / of_int 6"
    by (simp add: H_def field_simps)
  have "\<bar>fl z - H * (4 / 3)\<bar> < 1 / 6"
    using e H zH by linarith
  then have d: "\<bar>fl z - H * (4 / 3)\<bar> < 1 / of_int 6" by simp
  have "Math_round (fl z) = Math_round (H * (4 / 3))"
    by (rule Math_round_near [OF _ m v d]) simp
  then show ?thesis by (simp only: fl_4_3 z_def H_def)
qed

lemma fl_dyadic:
  assumes "n < 2 ^ 30" "c < 2 ^ 10"
  shows "fl (of_nat (n * c) / 2 ^ k) = of_nat (n * c) / 2 ^ k"
proof -
  have "n * c < 2 ^ 30 * 2 ^ 10" using assms by (intro mult_strict_mono) simp_all
  then have "n * c < 2 ^ 53" by simp
  then have "int (n * c) < int (2 ^ 53)" by (simp only: of_nat_less_iff)
  then have "\<bar>int (n * c)\<bar> < 2 ^ 53" by simp
  from fl_exact [OF this, of "- int k"] show ?thesis
    by (simp add: power_int_minus field_simps)
qed

lemma round_mul:
  assumes "h < 2 ^ 30"
  shows "Math_round (fl (of_nat h * fl (exact_ratio ar))) = Math_round (of_nat h * exact_ratio ar)"
proof (cases ar)
  case AR_16_9
  then show ?thesis using round_mul_16_9 [OF assms] by (simp only: exact_ratio_simps)
next
  case AR_1_1
  have "fl (of_nat h * 1) = of_nat h * 1" using fl_dyadic [OF assms, of 1 0] by simp
  then show ?thesis by (simp only: AR_1_1 exact_ratio_simps fl_1)
next
  case AR_9_16
  have "fl (of_nat h * (9 / 16)) = of_nat h * (9 / 16)" using fl_dyadic [OF assms, of 9 4] by simp
  then show ?thesis by (simp only: AR_9_16 exact_ratio_simps fl_9_16)
next
  case AR_4_3
  then show ?thesis using round_mul_4_3 [OF assms] by (simp only: exact_ratio_simps)
next
  case AR_3_4
  have "fl (of_nat h * (3 / 4)) = of_nat h * (3 / 4)" using fl_dyadic [OF assms, of 3 2] by simp
  then show ?thesis by (simp only: AR_3_4 exact_ratio_simps fl_3_4)
qed


lemma round_div_16_9:
  assumes "w < 2 ^ 30"
  shows "Math_round (fl (of_nat w / fl (16 / 9))) = Math_round (of_nat w / (16 / 9))"
proof -
  define W :: rat where "W = of_nat w"
  define z where "z = W / (8006399337547548 / 2 ^ 52)"
  define y where "y = W / (16 / 9)"
  have W: "0 \<le> W" "W < 1073741824" using of_nat_dim [OF assms] by (simp_all add: W_def)
  have zW: "z = W * 4503599627370496 / 8006399337547548" by (simp add: z_def)
  have yW: "y = W * 9 / 16" by (simp add: y_def)
  have z: "0 \<le> z" using W(1) by (simp add: z_def)
  have e: "\<bar>fl z - z\<bar> \<le> z / 9007199254740992" using fl_error [of z] z by simp
  have "fl (of_nat (w * 9) / 2 ^ 4) = of_nat (w * 9) / 2 ^ 4"
    by (rule fl_dyadic [OF assms]) simp
  then have fy: "fl y = y" by (simp add: yW W_def)
  have "y \<le> z" using W yW zW by linarith
  then have "fl y \<le> fl z" by (rule fl_mono)
  then have lo: "y \<le> fl z" by (simp only: fy)
  have v: "y + 1 / 2 = of_int (9 * int w + 8) / of_int 16"
    by (simp add: yW W_def field_simps)
  have "fl z < y + 1 / 16"
    using e W zW yW by linarith
  then have hi: "fl z < y + 1 / of_int 16" by simp
  have "Math_round (fl z) = Math_round y"
    by (rule Math_round_near_up [OF _ v lo hi]) simp
  then show ?thesis by (simp only: fl_16_9 z_def y_def W_def)
qed

lemma round_div_4_3:
  assumes "w < 2 ^ 30"
  shows "Math_round (fl (of_nat w / fl (4 / 3))) = Math_round (of_nat w / (4 / 3))"
proof -
  define W :: rat where "W = of_nat w"
  define z where "z = W / (6004799503160661 / 2 ^ 52)"
  define y where "y = W / (4 / 3)"
  have W: "0 \<le> W" "W < 1073741824" using of_nat_dim [OF assms] by (simp_all add: W_def)
  have zW: "z = W * 4503599627370496 / 6004799503160661" by (simp add: z_def)
  have yW: "y = W * 3 / 4" by (simp add: y_def)
  have z: "0 \<le> z" using W(1) by (simp add: z_def)
  have e: "\<bar>fl z - z\<bar> \<le> z / 9007199254740992" using fl_error [of z] z by simp
  have "fl (of_nat (w * 3) / 2 ^ 2) = of_nat (w * 3) / 2 ^ 2"
    by (rule fl_dyadic [OF assms]) simp
  then have fy: "fl y = y" by (simp add: yW W_def)
  have "y \<le> z" using W yW zW by linarith
  then have "fl y \<le> fl z" by (rule fl_mono)
  then have lo: "y \<le> fl z" by (simp only: fy)
  have v: "y + 1 / 2 = of_int (3 * int w + 2) / of_int 4"
    by (simp add: yW W_def field_simps)
  have "fl z < y + 1 / 4"
    using e W zW yW by linarith
  then have hi: "fl z < y + 1 / of_int 4" by simp
  have "Math_round (fl z) = Math_round y"
    by (rule Math_round_near_up [OF _ v lo hi]) simp
  then show ?thesis by (simp only: fl_4_3 z_def y_def W_def)
qed

lemma round_div_9_16:
  assumes "w < 2 ^ 30"
  shows "Math_round (fl (of_nat w / (9 / 16))) = Math_round (of_nat w / (9 / 16))"
proof -
  define W :: rat where "W = of_nat w"
  define y where "y = W / (9 / 16)"
  have W: "0 \<le> W" "W < 1073741824" using of_nat_dim [OF assms] by (simp_all add: W_def)
  have yW: "y = W * 16 / 9" by (simp add: y_def)
  have y: "0 \<le> y" using W(1) by (simp add: y_def)
  have e: "\<bar>fl y - y\<bar> \<le> y / 9007199254740992" using fl_error [of y] y by simp
  have m: "(32 * int w + 9) mod 18 \<noteq> 0" by presburger
  have v: "y + 1 / 2 = of_int (32 * int w + 9) / of_int 18"
    by (simp add: yW W_def field_simps)
  have "\<bar>fl y - y\<bar> < 1 / 18" using e W yW by linarith
  then have d: "\<bar>fl y - y\<bar> < 1 / of_int 18" by simp
  have "Math_round (fl y) = Math_round y"
    by (rule Math_round_near [OF _ m v d]) simp
  then show ?thesis by (simp only: y_def W_def)
qed

lemma round_div_3_4:
  assumes "w < 2 ^ 30"
  shows "Math_round (fl (of_nat w / (3 / 4))) = Math_round (of_nat w / (3 / 4))"
proof -
  define W :: rat where "W = of_nat w"
  define y where "y = W / (3 / 4)"
  have W: "0 \<le> W" "W < 1073741824" using of_nat_dim [OF assms] by (simp_all add: W_def)
  have yW: "y = W * 4 / 3" by (simp add: y_def)
  have y: "0 \<le> y" using W(1) by (simp add: y_def)
  have e: "\<bar>fl y - y\<bar> \<le> y / 9007199254740992" using fl_error [of y] y by simp
  have m: "(8 * int w + 3) mod 6 \<noteq> 0" by presburger
  have v: "y + 1 / 2 = of_int (8 * int w + 3) / of_int 6"
    by (simp add: yW W_def field_simps)
  have "\<bar>fl y - y\<bar> < 1 / 6" using e W yW by linarith
  then have d: "\<bar>fl y - y\<bar> < 1 / of_int 6" by simp
  have "Math_round (fl y) = Math_round y"
    by (rule Math_round_near [OF _ m v d]) simp
  then show ?thesis by (simp only: y_def W_def)
qed

lemma round_div:
  assumes "w < 2 ^ 30"
  shows "Math_round (fl (of_nat w / fl (exact_ratio ar))) = Math_round (of_nat w / exact_ratio ar)"
proof (cases ar)
  case AR_16_9
  then show ?thesis using round_div_16_9 [OF assms] by (simp only: exact_ratio_simps)
next
  case AR_1_1
  have "fl (of_nat w / 1) = of_nat w / 1" using fl_dyadic [OF assms, of 1 0] by simp
  then show ?thesis by (simp only: AR_1_1 exact_ratio_simps fl_1)
next
  case AR_9_16
  then show ?thesis using round_div_9_16 [OF assms] by (simp only: exact_ratio_simps fl_9_16)
next
  case AR_4_3
  then show ?thesis using round_div_4_3 [OF assms] by (simp only: exact_ratio_simps)
next
  case AR_3_4
  then show ?thesis using round_div_3_4 [OF assms] by (simp only: exact_ratio_simps fl_3_4)
qed


lemma branch_of_exact:
  assumes "fl (1 / 100) < \<bar>fl (fl T - fl R)\<bar>"
  shows "(fl R < fl T) = (R < T)"
proof
  assume "fl R < fl T"
  then show "R < T" by (rule fl_gt_imp)
next
  assume "R < T"
  then have "fl R \<le> fl T" by (intro fl_mono) simp
  moreover have "fl T \<noteq> fl R" using assms by (rule guard_imp_neq)
  ultimately show "fl R < fl T" by simp
qed

lemma canvas_size_exact_above:
  assumes "0 < w" "w < 2 ^ 30" "0 < h" "h < 2 ^ 30"
    and "1 / 100 < \<bar>exact_ratio ar - of_nat w / of_nat h\<bar>"
  shows "canvas_size w h ar =
     (if of_nat w / of_nat h < exact_ratio ar
      then (Math_round (of_nat h * exact_ratio ar), int h)
      else (int w, Math_round (of_nat w / exact_ratio ar)))"
proof -
  have g: "fl (1 / 100) < \<bar>fl (fl (exact_ratio ar) - fl (of_nat w / of_nat h))\<bar>"
    by (rule guard_of_exact_above [OF assms(1,3,4,5)])
  show ?thesis
    by (simp only: canvas_size_pos [OF assms(3)] g branch_of_exact [OF g] if_True
        round_mul [OF assms(4)] round_div [OF assms(2)])
qed

lemma canvas_size_exact_below:
  assumes "0 < w" "0 < h" "h < 2 ^ 30"
    and "\<bar>exact_ratio ar - of_nat w / of_nat h\<bar> < 1 / 100"
  shows "canvas_size w h ar = (int w, int h)"
  using guard_of_exact_below [OF assms] by (simp add: canvas_size_pos [OF assms(2)])

lemma targetRatio_range': "9 / 16 \<le> fl (exact_ratio ar) \<and> fl (exact_ratio ar) \<le> 57 / 32"
proof -
  have "9 / 16 \<le> exact_ratio ar" "exact_ratio ar \<le> 57 / 32"
    by (cases ar; simp add: exact_ratio_def)+
  then have "fl (9 / 16) \<le> fl (exact_ratio ar)" "fl (exact_ratio ar) \<le> fl (57 / 32)"
    by (auto intro: fl_mono)
  moreover have "fl (57 / 32) = 57 / 32"
    using fl_exact [of 57 "- 5"] by (simp add: power_int_minus)
  ultimately show ?thesis by (simp add: fl_9_16)
qed

lemma canvas_bounded:
  assumes "0 < h" "w < 2 ^ 30" "h < 2 ^ 30"
  shows "fst (canvas_size w h ar) < 2 ^ 31 \<and> snd (canvas_size w h ar) < 2 ^ 31"
proof -
  let ?t = "fl (exact_ratio ar)"
  have t: "9 / 16 \<le> ?t" "?t \<le> 57 / 32" using targetRatio_range' [of ar] by simp_all
  have W: "(of_nat w :: rat) < 1073741824" "(0::rat) \<le> of_nat w"
    using of_nat_dim [OF assms(2)] by simp_all
  have H: "(of_nat h :: rat) < 1073741824" "(0::rat) \<le> of_nat h"
    using of_nat_dim [OF assms(3)] by simp_all
  have f: "fl (of_int (2 ^ 31 - 1)) = of_int (2 ^ 31 - 1)" by (rule fl_of_int) simp
  have "of_nat h * ?t \<le> of_nat h * (57 / 32)" using t(2) H(2) by (intro mult_left_mono)
  then have "of_nat h * ?t \<le> of_int (2 ^ 31 - 1)" using H(1) by simp
  then have "fl (of_nat h * ?t) \<le> fl (of_int (2 ^ 31 - 1))" by (rule fl_mono)
  then have "Math_round (fl (of_nat h * ?t)) \<le> Math_round (of_int (2 ^ 31 - 1))"
    by (simp only: f) (rule Math_round_mono)
  then have a: "Math_round (fl (of_nat h * ?t)) \<le> 2 ^ 31 - 1" by (simp only: Math_round_of_int)
  define q where "q = of_nat w / ?t"
  have "q \<le> of_nat w / (9 / 16)"
    unfolding q_def using t(1) W(2) by (intro divide_left_mono) simp_all
  then have "q \<le> of_nat w * 16 / 9" by simp
  then have "q \<le> 2147483647" using W(1) by linarith
  then have "of_nat w / ?t \<le> of_int (2 ^ 31 - 1)" by (simp add: q_def)
  then have "fl (of_nat w / ?t) \<le> fl (of_int (2 ^ 31 - 1))" by (rule fl_mono)
  then have "Math_round (fl (of_nat w / ?t)) \<le> Math_round (of_int (2 ^ 31 - 1))"
    by (simp only: f) (rule Math_round_mono)
  then have b: "Math_round (fl (of_nat w / ?t)) \<le> 2 ^ 31 - 1" by (simp only: Math_round_of_int)
  have "int w < 2 ^ 30" "int h < 2 ^ 30" using assms(2,3) by simp_all
  then show ?thesis using a b by (simp add: canvas_size_pos [OF assms(1)])
qed

lemma offset_centered:
  assumes "0 \<le> d" "d \<le> 2 ^ 33"
  shows "Math_round (fl (fl (of_int d) / 2)) = (d + 1) div 2"
proof -
  have d: "\<bar>d\<bar> < 2 ^ 53" using assms by simp
  have a: "fl (of_int d) = of_int d" by (rule fl_of_int [OF d])
  have b: "fl (of_int d / 2) = of_int d / 2" using fl_exact [OF d, of "- 1"] by simp
  have "(of_int d :: rat) / 2 + 1 / 2 = of_int (d + 1) / of_int 2" by (simp add: add_divide_distrib)
  then have "Math_round (of_int d / 2) = (d + 1) div 2"
    by (simp only: Math_round_def floor_divide_of_int_eq)
  then show ?thesis by (simp only: a b)
qed

lemma Math_round_eqI:
  "of_int n \<le> x + 1 / 2 \<Longrightarrow> x + 1 / 2 < of_int n + 1 \<Longrightarrow> Math_round x = n"
  unfolding Math_round_def by (rule floor_unique)

lemma canvas_101_100: "canvas_size 101 100 AR_1_1 = (101, 101)"
proof -
  have T: "fl (exact_ratio AR_1_1) = 1"
    by (simp only: exact_ratio_simps fl_1)
  have R: "fl (of_nat 101 / of_nat 100) = 4548635623644201 / 4503599627370496"
    using fl_101_100 by simp
  have "fl (of_int (- 45035996273705) * 2 powi (- 52)) = of_int (- 45035996273705) * 2 powi (- 52)"
    by (rule fl_exact) simp
  then have G: "fl (1 - 4548635623644201 / 4503599627370496) = - (45035996273705 / 4503599627370496)"
    by (simp add: power_int_minus field_simps)
  have c1: "(5764607523034235 :: rat) / 576460752303423488 < \<bar>- (45035996273705 / 4503599627370496)\<bar>"
    by simp
  have c2: "\<not> (4548635623644201 :: rat) / 4503599627370496 < 1"
    by simp
  have "fl (of_nat 101 / 1) = of_nat 101" using fl_of_nat [of 101] by simp
  then have W: "Math_round (fl (of_nat 101 / 1)) = int 101"
    by (simp only: Math_round_of_nat)
  have "canvas_size 101 100 AR_1_1 = (int 101, int 101)"
    using canvas_size_pos [of 100 101 AR_1_1]
    by (simp only: T R G tolerance_value c1 c2 W if_True if_False)
  then show ?thesis by simp
qed

lemma Math_round_error: "\<bar>of_int (Math_round x) - x\<bar> \<le> 1 / 2"
  unfolding Math_round_def by linarith

lemma composed_canvas_eq:
  assumes "0 < h" "w < 2 ^ 30" "h < 2 ^ 30" "canvas_size w h ar = (cw, ch)"
  shows "composed_canvas u w h ar =
     \<lparr> canvas_width = cw, canvas_height = ch, fillStyle = ''#000000'',
       fillRect = (0, 0, cw, ch),
       drawImage = (u, (cw - int w + 1) div 2, (ch - int h + 1) div 2, w, h) \<rparr>
     \<and> int w \<le> cw \<and> int h \<le> ch \<and> cw < 2 ^ 31 \<and> ch < 2 ^ 31"
proof -
  have w53: "w < 2 ^ 53" using assms(2) by (rule less_trans) simp
  have h53: "h < 2 ^ 53" using assms(3) by (rule less_trans) simp
  have lo: "int w \<le> cw" "int h \<le> ch"
    using canvas_contains [OF assms(1) h53 w53, of ar] by (simp_all add: assms(4))
  have hi: "cw < 2 ^ 31" "ch < 2 ^ 31"
    using canvas_bounded [OF assms(1,2,3), of ar] by (simp_all add: assms(4))
  have x: "Math_round (fl (fl (of_int (cw - int w)) / 2)) = (cw - int w + 1) div 2"
    using lo(1) hi(1) by (intro offset_centered) simp_all
  have y: "Math_round (fl (fl (of_int (ch - int h)) / 2)) = (ch - int h + 1) div 2"
    using lo(2) hi(2) by (intro offset_centered) simp_all
  show ?thesis using x y lo hi by (simp add: composed_canvas_def assms(4))
qed

text \<open>
  C3. When the exact ratios differ by more than one hundredth, the canvas is sized as the
  claim says, for every image with dimensions below \<open>2\<^sup>3\<^sup>0\<close> (so that the canvas dimensions
  stay in the range that a canvas attribute keeps): with a target
  ratio above the image's, the height is the image's and the width is the height times the
  target ratio; otherwise the width is the image's and the height is the width divided by
  the target ratio; the product and the quotient are exact and rounded to the nearest
  integer by \<^verbatim>\<open>Math.round\<close>. The double-precision computation of the code gives these
  values.
\<close>

theorem canvas_size_resized:
  assumes "0 < w" "w < 2 ^ 30" "0 < h" "h < 2 ^ 30"
    and "1 / 100 < \<bar>exact_ratio ar - of_nat w / of_nat h\<bar>"
  shows "canvas_size w h ar =
     (if of_nat w / of_nat h < exact_ratio ar
      then (Math_round (of_nat h * exact_ratio ar), int h)
      else (int w, Math_round (of_nat w / exact_ratio ar)))"
  using assms by (rule canvas_size_exact_above)

theorem canvas_size_resized_witness:
  "(0::nat) < 1024 \<and> (1024::nat) < 2 ^ 30
   \<and> 1 / 100 < \<bar>exact_ratio AR_16_9 - of_nat 1024 / of_nat 1024\<bar>
   \<and> 1 / 100 < \<bar>exact_ratio AR_9_16 - of_nat 1024 / of_nat 1024\<bar>
   \<and> canvas_size 1024 1024 AR_16_9 = (1820, 1024)
   \<and> canvas_size 1024 1024 AR_9_16 = (1024, 1820)"
proof -
  have a: "1 / 100 < \<bar>exact_ratio AR_16_9 - of_nat 1024 / of_nat 1024\<bar>"
    by (simp add: exact_ratio_simps)
  have b: "1 / 100 < \<bar>exact_ratio AR_9_16 - of_nat 1024 / of_nat 1024\<bar>"
    by (simp add: exact_ratio_simps)
  have c: "Math_round (of_nat 1024 * (16 / 9)) = 1820" "Math_round (of_nat 1024 / (9 / 16)) = 1820"
    by (rule Math_round_eqI; simp)+
  from canvas_size_resized [OF _ _ _ _ a] canvas_size_resized [OF _ _ _ _ b] a b c show ?thesis
    by (simp add: exact_ratio_simps)
qed

text \<open>
  C4, as the claim states it, fails at the boundary: an image of 101 by 100 differs from
  the ratio 1:1 by exactly one hundredth, yet in double precision \<^verbatim>\<open>1 - 1.01\<close> has an
  absolute value above the Number \<^verbatim>\<open>0.01\<close>, and the canvas gets a row of padding.
\<close>

theorem boundary_image_is_padded:
  "\<bar>exact_ratio AR_1_1 - of_nat 101 / of_nat 100\<bar> \<le> 1 / 100
   \<and> canvas_size 101 100 AR_1_1 = (101, 101)
   \<and> canvas_size 101 100 AR_1_1 \<noteq> (int 101, int 100)"
  by (simp add: canvas_101_100 exact_ratio_simps)

text \<open>
  C4, amended. When the tolerance test of the code is false, and in particular whenever the
  exact ratios differ by less than one hundredth, the canvas has the dimensions of the
  image.
\<close>

theorem canvas_size_within_tolerance:
  assumes "0 < w" "0 < h" "h < 2 ^ 30"
  shows "(\<not> fl (1 / 100) < \<bar>fl (fl (exact_ratio ar) - fl (of_nat w / of_nat h))\<bar>
            \<longrightarrow> canvas_size w h ar = (int w, int h))
       \<and> (\<bar>exact_ratio ar - of_nat w / of_nat h\<bar> < 1 / 100
            \<longrightarrow> canvas_size w h ar = (int w, int h))"
  using canvas_size_exact_below [OF assms, of ar]
  by (simp add: canvas_size_pos [OF assms(2)])

theorem canvas_size_within_tolerance_witness:
  "(0::nat) < 1000 \<and> (0::nat) < 563 \<and> (563::nat) < 2 ^ 30
   \<and> \<bar>exact_ratio AR_16_9 - of_nat 1000 / of_nat 563\<bar> < 1 / 100
   \<and> canvas_size 1000 563 AR_16_9 = (1000, 563)"
proof -
  have d: "\<bar>exact_ratio AR_16_9 - of_nat 1000 / of_nat 563\<bar> < 1 / 100"
    by (simp add: exact_ratio_simps)
  from canvas_size_within_tolerance [of 1000 563 AR_16_9] d show ?thesis
    by simp
qed

text \<open>
  C1, as the claim states it, fails: an image of 1786 by 1000 is within the tolerance of
  16:9 and is left as it is, so the canvas is more than 8 pixels wider than its height
  times the ratio and more than 4 pixels lower than its width divided by the ratio.
\<close>

theorem unpadded_canvas_misses_ratio:
  "canvas_size 1786 1000 AR_16_9 = (1786, 1000)
   \<and> 8 < \<bar>of_int 1786 - of_int 1000 * exact_ratio AR_16_9\<bar>
   \<and> 4 < \<bar>of_int 1000 - of_int 1786 / exact_ratio AR_16_9\<bar>"
proof -
  have "canvas_size 1786 1000 AR_16_9 = (int 1786, int 1000)"
    by (rule canvas_size_exact_below) (simp_all add: exact_ratio_simps)
  then show ?thesis by (simp add: exact_ratio_simps)
qed

text \<open>
  C1, amended. For every image with positive dimensions below \<open>2\<^sup>3\<^sup>0\<close> and each of the five
  ratios: both canvas dimensions are at least the image's and below \<open>2\<^sup>3\<^sup>1\<close>; the image is
  drawn once, at its own width and height, at integer offsets that keep it inside the
  canvas; when the exact ratios differ by more than one hundredth, one canvas dimension is
  the image's and the other is within half a pixel of it scaled by the target ratio; when
  they differ by less than one hundredth, the canvas has the dimensions of the image, whose
  ratio is within one hundredth of the target but in general not within rounding of it.
\<close>

theorem canvas_contains_source:
  assumes "0 < w" "w < 2 ^ 30" "0 < h" "h < 2 ^ 30"
  shows "let c = composed_canvas u w h ar;
             cw = canvas_width c; ch = canvas_height c;
             dx = (cw - int w + 1) div 2; dy = (ch - int h + 1) div 2;
             T = exact_ratio ar
         in canvas_size w h ar = (cw, ch)
          \<and> int w \<le> cw \<and> cw < 2 ^ 31 \<and> int h \<le> ch \<and> ch < 2 ^ 31
          \<and> drawImage c = (u, dx, dy, w, h)
          \<and> 0 \<le> dx \<and> dx + int w \<le> cw \<and> 0 \<le> dy \<and> dy + int h \<le> ch
          \<and> (1 / 100 < \<bar>T - of_nat w / of_nat h\<bar> \<longrightarrow>
                (ch = int h \<and> \<bar>of_int cw - of_int ch * T\<bar> \<le> 1 / 2)
              \<or> (cw = int w \<and> \<bar>of_int ch - of_int cw / T\<bar> \<le> 1 / 2))
          \<and> (\<bar>T - of_nat w / of_nat h\<bar> < 1 / 100 \<longrightarrow> cw = int w \<and> ch = int h)"
proof -
  obtain cw ch where cs: "canvas_size w h ar = (cw, ch)" by (cases "canvas_size w h ar")
  note c = composed_canvas_eq [OF assms(3,2,4) cs, of u]
  have lo: "int w \<le> cw" "int h \<le> ch" using c by simp_all
  have hi: "cw < 2 ^ 31" "ch < 2 ^ 31" using c by simp_all
  have dx: "0 \<le> (cw - int w + 1) div 2" "(cw - int w + 1) div 2 + int w \<le> cw"
    using lo(1) by linarith+
  have dy: "0 \<le> (ch - int h + 1) div 2" "(ch - int h + 1) div 2 + int h \<le> ch"
    using lo(2) by linarith+
  have above: "(ch = int h \<and> \<bar>of_int cw - of_int ch * exact_ratio ar\<bar> \<le> 1 / 2)
       \<or> (cw = int w \<and> \<bar>of_int ch - of_int cw / exact_ratio ar\<bar> \<le> 1 / 2)"
    if "1 / 100 < \<bar>exact_ratio ar - of_nat w / of_nat h\<bar>"
  proof (cases "of_nat w / of_nat h < exact_ratio ar")
    case True
    with canvas_size_exact_above [OF assms that] cs
    have "cw = Math_round (of_nat h * exact_ratio ar)" "ch = int h" by simp_all
    then show ?thesis using Math_round_error [of "of_nat h * exact_ratio ar"] by simp
  next
    case False
    with canvas_size_exact_above [OF assms that] cs
    have "ch = Math_round (of_nat w / exact_ratio ar)" "cw = int w" by simp_all
    then show ?thesis using Math_round_error [of "of_nat w / exact_ratio ar"] by simp
  qed
  have below: "cw = int w \<and> ch = int h"
    if "\<bar>exact_ratio ar - of_nat w / of_nat h\<bar> < 1 / 100"
    using canvas_size_exact_below [OF assms(1,3,4) that] cs by simp
  show ?thesis
    using lo hi dx dy above below by (simp add: c cs Let_def)
qed

theorem canvas_contains_source_witness:
  "(0::nat) < 1024 \<and> (1024::nat) < 2 ^ 30 \<and> (0::nat) < 1000 \<and> (0::nat) < 563
   \<and> 1 / 100 < \<bar>exact_ratio AR_16_9 - of_nat 1024 / of_nat 1024\<bar>
   \<and> \<bar>exact_ratio AR_16_9 - of_nat 1000 / of_nat 563\<bar> < 1 / 100
   \<and> (let c = composed_canvas ''data:image/jpeg;base64,QQ=='' 1024 1024 AR_16_9
       in canvas_width c = 1820 \<and> canvas_height c = 1024
          \<and> drawImage c = (''data:image/jpeg;base64,QQ=='', 398, 0, 1024, 1024))
   \<and> (let c = composed_canvas ''data:image/jpeg;base64,QQ=='' 1000 563 AR_16_9
       in canvas_width c = 1000 \<and> canvas_height c = 563
          \<and> drawImage c = (''data:image/jpeg;base64,QQ=='', 0, 0, 1000, 563))"
proof -
  have a: "1 / 100 < \<bar>exact_ratio AR_16_9 - of_nat 1024 / of_nat 1024\<bar>"
    by (simp add: exact_ratio_simps)
  have b: "\<bar>exact_ratio AR_16_9 - of_nat 1000 / of_nat 563\<bar> < 1 / 100"
    by (simp add: exact_ratio_simps)
  have m: "Math_round (of_nat 1024 * (16 / 9)) = 1820"
    by (rule Math_round_eqI; simp)
  have cs: "canvas_size 1024 1024 AR_16_9 = (1820, 1024)"
    using canvas_size_exact_above [OF _ _ _ _ a] a m by (simp add: exact_ratio_simps)
  have p: "let c = composed_canvas ''data:image/jpeg;base64,QQ=='' 1024 1024 AR_16_9
       in canvas_width c = 1820 \<and> canvas_height c = 1024
          \<and> drawImage c = (''data:image/jpeg;base64,QQ=='', 398, 0, 1024, 1024)"
    using canvas_contains_source [of 1024 1024 "''data:image/jpeg;base64,QQ==''" AR_16_9] cs
    by (simp add: Let_def)
  have q: "let c = composed_canvas ''data:image/jpeg;base64,QQ=='' 1000 563 AR_16_9
       in canvas_width c = 1000 \<and> canvas_height c = 563
          \<and> drawImage c = (''data:image/jpeg;base64,QQ=='', 0, 0, 1000, 563)"
    using canvas_contains_source [of 1000 563 "''data:image/jpeg;base64,QQ==''" AR_16_9] b
    by (simp add: Let_def)
  from a b p q show ?thesis by simp
qed

text \<open>
  C6, as the claim states it, fails: an image that loads is still rejected when the canvas
  gives no 2D context.
\<close>

theorem drawCanvas_rejects_loaded_image:
  "load_image no_context ''data:image/jpeg;base64,AA=='' = Some (1, 1) \<and>
   drawCanvas no_context ''data:image/jpeg;base64,AA=='' AR_1_1 =
     Inl (Error ''Could not get canvas context'')"
  by (simp add: drawCanvas_def no_context_def)

text \<open>
  C6, amended. \<^verbatim>\<open>drawCanvas\<close> rejects exactly when the image fails to load or the canvas
  of the computed size gives no 2D context; when the image loads and the context is there,
  it resolves with the encoding of the composed canvas.
\<close>

theorem drawCanvas_rejects_iff:
  "((\<exists>e. drawCanvas br u ar = Inl e) \<longleftrightarrow>
      load_image br u = None \<or>
      (\<exists>w h. load_image br u = Some (w, h) \<and> \<not> getContext_2d br (canvas_size w h ar)))
   \<and> (load_image br u = Some (w, h) \<and> getContext_2d br (canvas_size w h ar) \<longleftrightarrow>
      load_image br u = Some (w, h) \<and>
      drawCanvas br u ar = Inr (toDataURL_jpeg br (composed_canvas u w h ar)))"
  by (auto simp add: drawCanvas_def composed_canvas_def Let_def split: option.splits prod.splits)

section \<open>The application component: results\<close>

text \<open>
  C5. In every state the display panel shows exactly one of the loading indicator, the
  error panel, the generated image and the empty state, chosen by the loading flag, then
  the error, then the final image.
\<close>

theorem display_panel_exactly_one:
  "length (filter id [shows_loading (display_panel s), shows_error (display_panel s),
                      shows_image (display_panel s), shows_empty (display_panel s)]) = 1
   \<and> shows_loading (display_panel s) = isLoading s
   \<and> shows_error (display_panel s) = (\<not> isLoading s \<and> truthy (error s))
   \<and> shows_image (display_panel s) =
       (\<not> isLoading s \<and> \<not> truthy (error s) \<and> truthy (finalImageUrl s))
   \<and> shows_empty (display_panel s) =
       (\<not> isLoading s \<and> \<not> truthy (error s) \<and> \<not> truthy (finalImageUrl s))"
  by (simp add: display_panel_def)

text \<open>
  C10. With an empty prompt and no reference image \<^verbatim>\<open>handleGenerate\<close> returns at its
  guard: the state and the pending calls are as before, from either button.
\<close>

theorem handleGenerate_noop:
  "prompt (ui sys) = [] \<Longrightarrow> uploadedImage (ui sys) = None \<Longrightarrow>
     handleGenerate sys = sys \<and> step sys ClickGenerate = sys \<and> step sys ClickTryAgain = sys"
  by (simp add: handleGenerate_def step_def run_effects_def)

theorem handleGenerate_noop_witness:
  "prompt (ui blank) = [] \<and> uploadedImage (ui blank) = None \<and> handleGenerate blank = blank
     \<and> step blank ClickGenerate = blank \<and> step blank ClickTryAgain = blank"
proof -
  have p: "prompt (ui blank) = []"
    by (simp add: blank_def)
  have u: "uploadedImage (ui blank) = None"
    by (simp add: blank_def mounted_def initial_state_def)
  from handleGenerate_noop [OF p u] p u show ?thesis
    by simp
qed






lemma pending_invariant:
  "reachable sys \<Longrightarrow>
     length (generations sys) \<le> 1 \<and> length (suggestions sys) \<le> 1 \<and>
     (generations sys \<noteq> [] \<longrightarrow> isLoading (ui sys)) \<and>
     (suggestions sys \<noteq> [] \<longrightarrow> isSuggesting (ui sys))"
proof (induction rule: reachable.induct)
  case reach_mounted
  show ?case
    by (simp add: mounted_def)
next
  case (reach_step sys ev)
  then show ?case
    by (cases ev)
      (auto simp add: step_def run_effects_def handleGenerate_def handleGetSuggestions_def
        handleGenerate_settled_def handleGetSuggestions_settled_def drawCanvas_settled_def
        handleImageUpload_def removeImage_def drop_nth_def display_panel_def truthy_def Let_def
        split: sum.splits if_splits)
qed

text \<open>
  C8. In every reachable state at most one \<^verbatim>\<open>generateThumbnail\<close> call and at most one
  \<^verbatim>\<open>getPromptSuggestions\<close> call is pending; a pending generation has the loading flag
  set and a pending suggestion the suggesting flag; while the loading flag is set neither
  the Generate button, nor the Try Again button, nor the suggestion button can be clicked,
  and while the suggesting flag is set the suggestion button cannot be clicked.
\<close>

theorem one_request_outstanding:
  "reachable sys \<Longrightarrow>
     length (generations sys) \<le> 1 \<and> length (suggestions sys) \<le> 1 \<and>
     (generations sys \<noteq> [] \<longrightarrow> isLoading (ui sys)) \<and>
     (suggestions sys \<noteq> [] \<longrightarrow> isSuggesting (ui sys)) \<and>
     (isLoading (ui sys) \<longrightarrow>
        \<not> enabled sys ClickGenerate \<and> \<not> enabled sys ClickTryAgain \<and> \<not> enabled sys ClickSuggest) \<and>
     (isSuggesting (ui sys) \<longrightarrow> \<not> enabled sys ClickSuggest)"
  using pending_invariant [of sys] by (simp add: display_panel_def)

theorem one_request_outstanding_witness:
  "reachable (step mounted ClickGenerate)
   \<and> length (generations (step mounted ClickGenerate)) = 1
   \<and> isLoading (ui (step mounted ClickGenerate))
   \<and> \<not> enabled (step mounted ClickGenerate) ClickGenerate
   \<and> \<not> enabled (step mounted ClickGenerate) ClickTryAgain
   \<and> \<not> enabled (step mounted ClickGenerate) ClickSuggest"
proof -
  have en: "enabled mounted ClickGenerate"
    by (simp add: mounted_def initial_state_def initialPrompt_def)
  have r: "reachable (step mounted ClickGenerate)"
    by (rule reach_step [OF reach_mounted en])
  have g: "length (generations (step mounted ClickGenerate)) = 1"
    by (simp add: step_def run_effects_def handleGenerate_def mounted_def initial_state_def
        initialPrompt_def truthy_def Let_def)
  from one_request_outstanding [OF r] g r show ?thesis
    by auto
qed

end
